theory Spec2Isabelle
  imports Main "HOL-Library.AList"
begin

section \<open>The configuration model (package internal/config)\<close>

text \<open>
  The builder in \<^verbatim>\<open>lexer.go\<close> reads a decoded configuration tree.  Its Go types are
  declared outside the files at hand, so they are reconstructed from the fields the builder
  reads.  A pointer to a one-field struct (\<^verbatim>\<open>*config.Push\<close>, \<^verbatim>\<open>*config.Include\<close>, ...) is an
  option of that field: \<open>None\<close> is the nil pointer.
\<close>

type_synonym TokenType = int

datatype ByGroupsElement = TokenV string | UsingSelfV string | OtherV

record config_Rule =
  Pattern :: string
  Token :: "string option"
  Pop :: "int option"
  Push :: "string option"
  Include :: "string option"
  Combined :: "string list option"
  ByGroups :: "ByGroupsElement list option"
  UsingSelf :: "string option"

record config_State =
  Name :: string
  Rules :: "config_Rule list"

record config_Config =
  LexerName :: string
  Aliases :: "string list"
  Filenames :: "string list"
  MimeTypes :: "string list"
  Priority :: int

text \<open>\<open>States cfg\<close> stands for the Go expression \<^verbatim>\<open>cfg.Rules.States\<close>.\<close>

record config_Lexer =
  Config :: config_Config
  States :: "config_State list"

section \<open>The run-time rule table\<close>

text \<open>
  A compiled pattern is a value of the regular expression library, of an arbitrary type
  \<open>'re\<close> here, together with the match timeout the builder sets on it (a Go
  \<^verbatim>\<open>time.Duration\<close>, in nanoseconds).
\<close>

record 're Regexp =
  re :: 're
  MatchTimeout :: int

record byGroupElement =
  ge_tok :: TokenType
  ge_useSelfState :: string

record 're rule =
  pattern :: "'re Regexp"
  tok :: TokenType
  popDepth :: int
  pushState :: string
  rinclude :: string
  byGroups :: "byGroupElement list"
  useSelfState :: string

record 're state =
  name :: string
  rules :: "'re rule list"

text \<open>
  Modelled from the spec: the type \<^verbatim>\<open>rules\<close> with its methods \<^verbatim>\<open>AddState\<close>, \<^verbatim>\<open>Get\<close> and
  \<^verbatim>\<open>Contains\<close> is not among the source files.  The spec calls the state table a mapping
  from state name to rule list, and \<^verbatim>\<open>resolveIncludes\<close> ranges over its field
  \<^verbatim>\<open>rules.rules\<close> as a Go map from string to state.  The map is kept as an association
  list with one entry per key, in insertion order, so that the iteration of
  \<^verbatim>\<open>resolveIncludes\<close> can be run; Go leaves that order open.
\<close>

type_synonym 're rules = "(string \<times> 're state) list"

definition newRules :: "'re rules" where
  "newRules = []"

definition AddState :: "'re rules \<Rightarrow> 're state \<Rightarrow> 're rules" where
  "AddState tbl s = AList.update (name s) s tbl"

definition Get :: "'re rules \<Rightarrow> string \<Rightarrow> 're state option" where
  "Get tbl n = map_of tbl n"

definition Contains :: "'re rules \<Rightarrow> string \<Rightarrow> bool" where
  "Contains tbl n = (map_of tbl n \<noteq> None)"

record 're Lexer =
  config :: config_Lexer
  lexer_rules :: "'re rules"

section \<open>Errors and outcomes\<close>

text \<open>
  One constructor per error message of the source.  The library call \<^verbatim>\<open>mylog.Check\<close>
  (and \<^verbatim>\<open>mylog.Check2\<close>) stops the running function with the error it is handed: in the
  model the error travels up as \<open>Inl\<close>, and \<open>Build\<close> ends as \<open>Panicked\<close>.
  \<^verbatim>\<open>mylog.CheckIgnore\<close> reports the error and carries on.
\<close>

datatype error =
    NoRootState
  | MissingStates "string list"
  | NoPatternNoDirective
  | PushAndPop
  | TokenAndInclude
  | TokenAndByGroups
  | IncludeAndByGroups
  | CombinedAndOther
  | NoSuchSubstate string
  | NoSuchInclude string
  | InvalidPattern string
  | InvalidTokenType string
  | BadGlob string

datatype 're outcome = Returned "'re Lexer" "error option" | Panicked error

definition CheckIgnore :: "error option \<Rightarrow> unit" where
  "CheckIgnore err = ()"

text \<open>The failure classes the specification names.\<close>

fun isMissingRootState :: "error \<Rightarrow> bool" where
  "isMissingRootState NoRootState = True"
| "isMissingRootState _ = False"

fun isDanglingStateReference :: "error \<Rightarrow> bool" where
  "isDanglingStateReference (MissingStates ms) = True"
| "isDanglingStateReference (NoSuchSubstate s) = True"
| "isDanglingStateReference (NoSuchInclude s) = True"
| "isDanglingStateReference _ = False"

fun isConflictingRuleAction :: "error \<Rightarrow> bool" where
  "isConflictingRuleAction NoPatternNoDirective = True"
| "isConflictingRuleAction PushAndPop = True"
| "isConflictingRuleAction TokenAndInclude = True"
| "isConflictingRuleAction TokenAndByGroups = True"
| "isConflictingRuleAction IncludeAndByGroups = True"
| "isConflictingRuleAction CombinedAndOther = True"
| "isConflictingRuleAction _ = False"

fun isInvalidPattern :: "error \<Rightarrow> bool" where
  "isInvalidPattern (InvalidPattern p) = True"
| "isInvalidPattern _ = False"

text \<open>The state names an error message prints.\<close>

fun namesListed :: "error \<Rightarrow> string list" where
  "namesListed (MissingStates ms) = ms"
| "namesListed (NoSuchInclude s) = [s]"
| "namesListed _ = []"

definition failed :: "'re outcome option \<Rightarrow> bool" where
  "failed out = (case out of
      None \<Rightarrow> False
    | Some (Panicked e) \<Rightarrow> True
    | Some (Returned lx None) \<Rightarrow> False
    | Some (Returned lx (Some e)) \<Rightarrow> True)"

section \<open>The builder (lexer.go)\<close>

subsection \<open>validate\<close>

fun findRoot :: "bool \<Rightarrow> config_State list \<Rightarrow> bool" where
  "findRoot foundRoot [] = foundRoot"
| "findRoot foundRoot (s # ss) = findRoot (if Name s = ''root'' then True else foundRoot) ss"

fun collectNames :: "string set \<Rightarrow> config_State list \<Rightarrow> string set" where
  "collectNames stateNames [] = stateNames"
| "collectNames stateNames (s # ss) = collectNames (insert (Name s) stateNames) ss"

fun missingInRules :: "string set \<Rightarrow> string list \<Rightarrow> config_Rule list \<Rightarrow> string list" where
  "missingInRules stateNames missing [] = missing"
| "missingInRules stateNames missing (r # rs) =
     (case Push r of
        None \<Rightarrow> missingInRules stateNames missing rs
      | Some target \<Rightarrow>
          if target = '''' then missingInRules stateNames missing rs
          else if target \<notin> stateNames then missingInRules stateNames (missing @ [target]) rs
          else missingInRules stateNames missing rs)"

fun missingInStates :: "string set \<Rightarrow> string list \<Rightarrow> config_State list \<Rightarrow> string list" where
  "missingInStates stateNames missing [] = missing"
| "missingInStates stateNames missing (s # ss) =
     missingInStates stateNames (missingInRules stateNames missing (Rules s)) ss"

definition makeMissingError :: "string list \<Rightarrow> error option" where
  "makeMissingError missing = (if length missing = 0 then None else Some (MissingStates missing))"

definition validate :: "config_Lexer \<Rightarrow> error option" where
  "validate cfg =
     (if \<not> findRoot False (States cfg) then Some NoRootState
      else makeMissingError
             (missingInStates (collectNames {} (States cfg)) [] (States cfg)))"

subsection \<open>checkRule\<close>

definition checkRule :: "config_Rule \<Rightarrow> error option" where
  "checkRule r =
     (if Pattern r = '''' \<and> Push r = None \<and> Pop r = None \<and> Include r = None
        then Some NoPatternNoDirective
      else if Pop r \<noteq> None \<and> Push r \<noteq> None then Some PushAndPop
      else if Token r \<noteq> None \<and> Include r \<noteq> None then Some TokenAndInclude
      else if Token r \<noteq> None \<and> ByGroups r \<noteq> None then Some TokenAndByGroups
      else if Include r \<noteq> None \<and> ByGroups r \<noteq> None then Some IncludeAndByGroups
      else if Combined r \<noteq> None \<and> (Push r \<noteq> None \<or> Pop r \<noteq> None \<or> Include r \<noteq> None)
        then Some CombinedAndOther
      else None)"

subsection \<open>makeRule\<close>

text \<open>
  \<open>compile\<close> stands for \<^verbatim>\<open>regexp2.Compile(pat, regexp2.Multiline)\<close>, with \<open>None\<close> for a
  pattern the library refuses.  \<open>Millisecond\<close> is Go's \<^verbatim>\<open>time.Millisecond\<close>.
\<close>

definition anchored :: "string \<Rightarrow> string" where
  "anchored pat = [CHR 0x5C, CHR ''A''] @ pat"

definition Millisecond :: int where
  "Millisecond = 1000000"

definition makeRule :: "(string \<Rightarrow> 're option) \<Rightarrow> string \<Rightarrow> error + 're rule" where
  "makeRule compile pat =
     (case compile (anchored pat) of
        None \<Rightarrow> Inl (InvalidPattern (anchored pat))
      | Some rx \<Rightarrow>
          Inr \<lparr>pattern = \<lparr>re = rx, MatchTimeout = Millisecond * 250\<rparr>,
               tok = 0, popDepth = 0, pushState = '''', rinclude = '''',
               byGroups = [], useSelfState = ''''\<rparr>)"

subsection \<open>Combined states\<close>

text \<open>Go's \<^verbatim>\<open>strings.Join\<close>.\<close>

fun Join :: "string list \<Rightarrow> string \<Rightarrow> string" where
  "Join [] sep = ''''"
| "Join [x] sep = x"
| "Join (x # y # ys) sep = x @ sep @ Join (y # ys) sep"

definition combinedStateName :: "string list \<Rightarrow> string" where
  "combinedStateName c = ''__combined_'' @ Join c ''__''"

definition updatePushForCombinedState :: "'re rule \<Rightarrow> config_Rule \<Rightarrow> 're rule" where
  "updatePushForCombinedState r cr =
     (case Combined cr of
        None \<Rightarrow> r
      | Some c \<Rightarrow> r\<lparr>pushState := combinedStateName c\<rparr>)"

text \<open>
  The loop over the substates of a combined element.  The message of the error prints the
  zero state the failed lookup returned, not the name that was looked up; the constructor
  keeps the name of the declaring state, which the message prints too.
\<close>

fun appendSubstates ::
  "'re rules \<Rightarrow> string \<Rightarrow> 're rule list \<Rightarrow> string list \<Rightarrow> error + 're rule list" where
  "appendSubstates tbl stateName acc [] = Inr acc"
| "appendSubstates tbl stateName acc (substateName # rest) =
     (case Get tbl substateName of
        None \<Rightarrow> Inl (NoSuchSubstate stateName)
      | Some substate \<Rightarrow> appendSubstates tbl stateName (acc @ rules substate) rest)"

definition createCombinedStateInRule ::
  "'re rules \<Rightarrow> string \<Rightarrow> config_Rule \<Rightarrow> error + 're rules" where
  "createCombinedStateInRule tbl stateName cr =
     (case Combined cr of
        None \<Rightarrow> Inr tbl
      | Some c \<Rightarrow>
          if Contains tbl (combinedStateName c) then Inr tbl
          else (case appendSubstates tbl stateName [] c of
                  Inl e \<Rightarrow> Inl e
                | Inr rs \<Rightarrow> Inr (AddState tbl \<lparr>name = combinedStateName c, rules = rs\<rparr>)))"

fun createCombinedStatesLoop ::
  "'re rules \<Rightarrow> string \<Rightarrow> config_Rule list \<Rightarrow> error + 're rules" where
  "createCombinedStatesLoop tbl stateName [] = Inr tbl"
| "createCombinedStatesLoop tbl stateName (cr # crs) =
     (case createCombinedStateInRule tbl stateName cr of
        Inl e \<Rightarrow> Inl e
      | Inr tbl' \<Rightarrow> createCombinedStatesLoop tbl' stateName crs)"

definition createCombinedStates :: "'re rules \<Rightarrow> config_State \<Rightarrow> error + 're rules" where
  "createCombinedStates tbl st = createCombinedStatesLoop tbl (Name st) (Rules st)"

subsection \<open>setRuleFieldsFrom and ruleSequence\<close>

text \<open>
  \<open>tts\<close> stands for \<^verbatim>\<open>TokenTypeString\<close>, the lookup of a token type by its name, which
  is declared outside the files at hand; \<open>None\<close> is its error.
\<close>

fun byGroupElements ::
  "(string \<Rightarrow> TokenType option) \<Rightarrow> byGroupElement list \<Rightarrow> ByGroupsElement list
     \<Rightarrow> error + byGroupElement list" where
  "byGroupElements tts acc [] = Inr acc"
| "byGroupElements tts acc (TokenV ty # es) =
     (case tts ty of
        None \<Rightarrow> Inl (InvalidTokenType ty)
      | Some typ \<Rightarrow> byGroupElements tts (acc @ [\<lparr>ge_tok = typ, ge_useSelfState = ''''\<rparr>]) es)"
| "byGroupElements tts acc (UsingSelfV st # es) =
     byGroupElements tts (acc @ [\<lparr>ge_tok = 0, ge_useSelfState = st\<rparr>]) es"
| "byGroupElements tts acc (OtherV # es) =
     byGroupElements tts (acc @ [\<lparr>ge_tok = 0, ge_useSelfState = ''''\<rparr>]) es"

definition setRuleFieldsFrom ::
  "(string \<Rightarrow> TokenType option) \<Rightarrow> 're rule \<Rightarrow> config_Rule \<Rightarrow> error + 're rule" where
  "setRuleFieldsFrom tts r cr =
     (case (case Token cr of
              None \<Rightarrow> Inr r
            | Some ty \<Rightarrow> (case tts ty of
                            None \<Rightarrow> Inl (InvalidTokenType ty)
                          | Some typ \<Rightarrow> Inr (r\<lparr>tok := typ\<rparr>))) of
        Inl e \<Rightarrow> Inl e
      | Inr r1 \<Rightarrow>
          let r2 = (case Pop cr of None \<Rightarrow> r1 | Some d \<Rightarrow> r1\<lparr>popDepth := d\<rparr>);
              r3 = (case Push cr of None \<Rightarrow> r2 | Some s \<Rightarrow> r2\<lparr>pushState := s\<rparr>);
              r4 = (case Include cr of None \<Rightarrow> r3 | Some s \<Rightarrow> r3\<lparr>rinclude := s\<rparr>)
          in (case (case ByGroups cr of
                      None \<Rightarrow> Inr r4
                    | Some es \<Rightarrow> (case byGroupElements tts (byGroups r4) es of
                                    Inl e \<Rightarrow> Inl e
                                  | Inr ges \<Rightarrow> Inr (r4\<lparr>byGroups := ges\<rparr>))) of
                Inl e \<Rightarrow> Inl e
              | Inr r5 \<Rightarrow>
                  Inr (case UsingSelf cr of None \<Rightarrow> r5 | Some s \<Rightarrow> r5\<lparr>useSelfState := s\<rparr>)))"

definition buildRule ::
  "(string \<Rightarrow> 're option) \<Rightarrow> (string \<Rightarrow> TokenType option) \<Rightarrow> config_Rule
     \<Rightarrow> error + 're rule" where
  "buildRule compile tts cr =
     (case checkRule cr of
        Some e \<Rightarrow> Inl e
      | None \<Rightarrow>
          (case makeRule compile (Pattern cr) of
             Inl e \<Rightarrow> Inl e
           | Inr r \<Rightarrow> setRuleFieldsFrom tts (updatePushForCombinedState r cr) cr))"

fun ruleSequence ::
  "(string \<Rightarrow> 're option) \<Rightarrow> (string \<Rightarrow> TokenType option) \<Rightarrow> config_Rule list
     \<Rightarrow> error + 're rule list" where
  "ruleSequence compile tts [] = Inr []"
| "ruleSequence compile tts (cr # crs) =
     (case buildRule compile tts cr of
        Inl e \<Rightarrow> Inl e
      | Inr r \<Rightarrow>
          (case ruleSequence compile tts crs of
             Inl e \<Rightarrow> Inl e
           | Inr rs \<Rightarrow> Inr (r # rs)))"

subsection \<open>build\<close>

fun addStates ::
  "(string \<Rightarrow> 're option) \<Rightarrow> (string \<Rightarrow> TokenType option) \<Rightarrow> 're rules
     \<Rightarrow> config_State list \<Rightarrow> error + 're rules" where
  "addStates compile tts tbl [] = Inr tbl"
| "addStates compile tts tbl (xmlState # rest) =
     (case ruleSequence compile tts (Rules xmlState) of
        Inl e \<Rightarrow> Inl e
      | Inr seq \<Rightarrow> addStates compile tts (AddState tbl \<lparr>name = Name xmlState, rules = seq\<rparr>) rest)"

fun combineStates :: "'re rules \<Rightarrow> config_State list \<Rightarrow> error + 're rules" where
  "combineStates tbl [] = Inr tbl"
| "combineStates tbl (xmlState # rest) =
     (case createCombinedStates tbl xmlState of
        Inl e \<Rightarrow> Inl e
      | Inr tbl' \<Rightarrow> combineStates tbl' rest)"

definition build ::
  "(string \<Rightarrow> 're option) \<Rightarrow> (string \<Rightarrow> TokenType option) \<Rightarrow> config_Lexer
     \<Rightarrow> error + 're rules" where
  "build compile tts cfg =
     (case addStates compile tts newRules (States cfg) of
        Inl e \<Rightarrow> Inl e
      | Inr tbl \<Rightarrow> combineStates tbl (States cfg))"

subsection \<open>Include resolution\<close>

text \<open>
  \<^verbatim>\<open>resolveIncludesIn\<close> calls itself on the rules of every included state, with nothing
  that bounds the depth.  The first argument bounds the depth of the nested calls; \<open>None\<close>
  says that the bound did not suffice.  A recursion that no bound satisfies never returns.
\<close>

fun resolveIncludesIn ::
  "nat \<Rightarrow> 're rules \<Rightarrow> 're rule list \<Rightarrow> 're rule list \<Rightarrow> (error + 're rule list) option" where
  "resolveIncludesIn fuel tbl acc [] = Some (Inr acc)"
| "resolveIncludesIn fuel tbl acc (rl # rest) =
     (if rinclude rl \<noteq> '''' then
        (case Get tbl (rinclude rl) of
           None \<Rightarrow> Some (Inl (NoSuchInclude (rinclude rl)))
         | Some includeState \<Rightarrow>
             (case fuel of
                0 \<Rightarrow> None
              | Suc fuel' \<Rightarrow>
                  (case resolveIncludesIn fuel' tbl [] (rules includeState) of
                     None \<Rightarrow> None
                   | Some (Inl e) \<Rightarrow> Some (Inl e)
                   | Some (Inr resolved) \<Rightarrow> resolveIncludesIn fuel tbl (acc @ resolved) rest)))
      else resolveIncludesIn fuel tbl (acc @ [rl]) rest)"

fun resolveStates ::
  "nat \<Rightarrow> 're rules \<Rightarrow> 're rules \<Rightarrow> 're rules \<Rightarrow> (error + 're rules) option" where
  "resolveStates fuel tbl new [] = Some (Inr new)"
| "resolveStates fuel tbl new ((nm, st) # rest) =
     (case resolveIncludesIn fuel tbl [] (rules st) of
        None \<Rightarrow> None
      | Some (Inl e) \<Rightarrow> Some (Inl e)
      | Some (Inr list) \<Rightarrow>
          resolveStates fuel tbl (AList.update nm (st\<lparr>rules := list\<rparr>) new) rest)"

definition resolveIncludes :: "nat \<Rightarrow> 're rules \<Rightarrow> (error + 're rules) option" where
  "resolveIncludes fuel tbl = resolveStates fuel tbl [] tbl"

subsection \<open>Build\<close>

definition Build ::
  "nat \<Rightarrow> (string \<Rightarrow> 're option) \<Rightarrow> (string \<Rightarrow> TokenType option) \<Rightarrow> config_Lexer
     \<Rightarrow> 're outcome option" where
  "Build fuel compile tts cfg =
     (let ignored = CheckIgnore (validate cfg) in
      case build compile tts cfg of
        Inl e \<Rightarrow> Some (Panicked e)
      | Inr tbl \<Rightarrow>
          (case resolveIncludes fuel tbl of
             None \<Rightarrow> None
           | Some (Inl e) \<Rightarrow> Some (Panicked e)
           | Some (Inr tbl') \<Rightarrow> Some (Returned \<lparr>config = cfg, lexer_rules = tbl'\<rparr> None)))"

section \<open>The registry (registry.go)\<close>

record 're LexerRegistry =
  Lexers :: "'re Lexer list"
  byName :: "string \<rightharpoonup> 're Lexer"
  byAlias :: "string \<rightharpoonup> 're Lexer"

text \<open>
  \<^verbatim>\<open>prioritisedLexers.Less\<close> compares two entries of the slice by priority, an unset
  priority counting as 1.  \<open>sortLexers\<close> stands for \<^verbatim>\<open>sort.Sort\<close> with that order (an
  insertion sort; Go's sort keeps no order among equal entries).
\<close>

definition lessLexer :: "'re Lexer \<Rightarrow> 're Lexer \<Rightarrow> bool" where
  "lessLexer li lj =
     (let ip = Priority (Config (config li));
          ip = (if ip = 0 then 1 else ip);
          jp = Priority (Config (config lj));
          jp = (if jp = 0 then 1 else jp)
      in ip > jp)"

definition Less :: "'re Lexer list \<Rightarrow> nat \<Rightarrow> nat \<Rightarrow> bool" where
  "Less l i j = lessLexer (l ! i) (l ! j)"

fun insertLexer :: "'re Lexer \<Rightarrow> 're Lexer list \<Rightarrow> 're Lexer list" where
  "insertLexer x [] = [x]"
| "insertLexer x (y # ys) = (if lessLexer y x then y # insertLexer x ys else x # y # ys)"

fun sortLexers :: "'re Lexer list \<Rightarrow> 're Lexer list" where
  "sortLexers [] = []"
| "sortLexers (x # xs) = insertLexer x (sortLexers xs)"

text \<open>
  \<open>globMatch\<close> stands for \<^verbatim>\<open>filepath.Match\<close> (\<open>None\<close> is its error for a malformed
  glob) and \<open>base\<close> for \<^verbatim>\<open>filepath.Base\<close>.  The body of the inner loop of \<^verbatim>\<open>Match\<close> is the
  single statement \<^verbatim>\<open>mylog.Check2(filepath.Match(glob, filename))\<close>: the error stops the
  function, the boolean is dropped, and nothing is appended to \<^verbatim>\<open>matched\<close>.
\<close>

fun checkGlobs ::
  "(string \<Rightarrow> string \<Rightarrow> bool option) \<Rightarrow> string \<Rightarrow> string list \<Rightarrow> error + unit" where
  "checkGlobs globMatch filename [] = Inr ()"
| "checkGlobs globMatch filename (glob # globs) =
     (case globMatch glob filename of
        None \<Rightarrow> Inl (BadGlob glob)
      | Some b \<Rightarrow> checkGlobs globMatch filename globs)"

fun matchLoop ::
  "(string \<Rightarrow> string \<Rightarrow> bool option) \<Rightarrow> string \<Rightarrow> 're Lexer list \<Rightarrow> 're Lexer list
     \<Rightarrow> error + 're Lexer list" where
  "matchLoop globMatch filename matched [] = Inr matched"
| "matchLoop globMatch filename matched (lexer # rest) =
     (case checkGlobs globMatch filename (Filenames (Config (config lexer))) of
        Inl e \<Rightarrow> Inl e
      | Inr u \<Rightarrow> matchLoop globMatch filename matched rest)"

text \<open>The result is \<open>Inl\<close> for a stopped call, \<open>Inr None\<close> for Go's nil.\<close>

definition Match ::
  "(string \<Rightarrow> string \<Rightarrow> bool option) \<Rightarrow> (string \<Rightarrow> string) \<Rightarrow> 're LexerRegistry \<Rightarrow> string
     \<Rightarrow> error + 're Lexer option" where
  "Match globMatch base l filename =
     (let filename = base filename in
      case matchLoop globMatch filename [] (Lexers l) of
        Inl e \<Rightarrow> Inl e
      | Inr matched \<Rightarrow>
          if length matched > 0 then Inr (Some (hd (sortLexers matched))) else Inr None)"

section \<open>The tokenizer\<close>

























section \<open>Vocabulary of the statements\<close>

text \<open>All rules of a configuration, in the order in which \<open>build\<close> visits them.\<close>

definition allRules :: "config_Lexer \<Rightarrow> config_Rule list" where
  "allRules cfg = concat (map Rules (States cfg))"

text \<open>
  The specification's two grounds for a ConflictingRuleAction failure: a rule that
  combines incompatible action categories, and a rule with neither a pattern nor any
  directive.
\<close>

definition incompatibleActions :: "config_Rule \<Rightarrow> bool" where
  "incompatibleActions r =
     ((Token r \<noteq> None \<and> Include r \<noteq> None) \<or>
      (Token r \<noteq> None \<and> ByGroups r \<noteq> None) \<or>
      (Include r \<noteq> None \<and> ByGroups r \<noteq> None) \<or>
      (Push r \<noteq> None \<and> Pop r \<noteq> None) \<or>
      (Combined r \<noteq> None \<and> (Push r \<noteq> None \<or> Pop r \<noteq> None \<or> Include r \<noteq> None)))"

definition noPatternNoDirective :: "config_Rule \<Rightarrow> bool" where
  "noPatternNoDirective r =
     (Pattern r = '''' \<and> Token r = None \<and> Pop r = None \<and> Push r = None \<and> Include r = None \<and>
      Combined r = None \<and> ByGroups r = None \<and> UsingSelf r = None)"

text \<open>What \<open>checkRule\<close> tests first: an empty pattern with no push, pop or include.\<close>

definition noPatternNoTransition :: "config_Rule \<Rightarrow> bool" where
  "noPatternNoTransition r =
     (Pattern r = '''' \<and> Push r = None \<and> Pop r = None \<and> Include r = None)"

text \<open>The rule can be built: its check passes, its pattern compiles, its token types exist.\<close>

definition builds ::
  "(string \<Rightarrow> 're option) \<Rightarrow> (string \<Rightarrow> TokenType option) \<Rightarrow> config_Rule \<Rightarrow> bool" where
  "builds compile tts cr = (case buildRule compile tts cr of Inl e \<Rightarrow> False | Inr r \<Rightarrow> True)"

text \<open>All rules held by the states of a table.\<close>

definition rulesIn :: "'re rules \<Rightarrow> 're rule set" where
  "rulesIn tbl = (\<Union>(n, st)\<in>set tbl. set (rules st))"


text \<open>
  The includes of a table are well-founded when the state names can be ranked so that
  every include of a state that the table holds goes to a state of lower rank.
\<close>

definition wellRanked :: "'re rules \<Rightarrow> (string \<Rightarrow> nat) \<Rightarrow> bool" where
  "wellRanked tbl rank =
     (\<forall>(n, st)\<in>set tbl. \<forall>r\<in>set (rules st).
        rinclude r \<noteq> '''' \<longrightarrow> Get tbl (rinclude r) \<noteq> None \<longrightarrow> rank (rinclude r) < rank n)"

text \<open>Some rule of the table includes a state that the table does not hold.\<close>

definition danglingInclude :: "'re rules \<Rightarrow> bool" where
  "danglingInclude tbl = (\<exists>r\<in>rulesIn tbl. rinclude r \<noteq> '''' \<and> Get tbl (rinclude r) = None)"

text \<open>
  The push targets that \<open>validate\<close> is to report: the non-empty targets, in declaration
  order, that name no declared state.
\<close>

definition undefinedPushTargets :: "config_Lexer \<Rightarrow> string list" where
  "undefinedPushTargets cfg =
     filter (\<lambda>target. target \<noteq> '''' \<and> target \<notin> Name ` set (States cfg))
       (List.map_filter Push (allRules cfg))"

text \<open>Build comes to an end for some bound on the depth of the include resolution.\<close>

definition buildEnds ::
  "(string \<Rightarrow> 're option) \<Rightarrow> (string \<Rightarrow> TokenType option) \<Rightarrow> config_Lexer \<Rightarrow> bool" where
  "buildEnds compile tts cfg = (\<exists>fuel. Build fuel compile tts cfg \<noteq> None)"

text \<open>The rules a table holds under a state name (none when the name is absent).\<close>

definition stateRules :: "'re rules \<Rightarrow> string \<Rightarrow> 're rule list" where
  "stateRules tbl n = (case Get tbl n of None \<Rightarrow> [] | Some s \<Rightarrow> rules s)"

text \<open>Some rule of the configuration declares the combination \<open>c\<close>.\<close>

definition declaredCombination :: "config_Lexer \<Rightarrow> string list \<Rightarrow> bool" where
  "declaredCombination cfg c = (\<exists>cr\<in>set (allRules cfg). Combined cr = Some c)"

text \<open>
  The synthesized name of the combination \<open>c\<close> is neither the name of a declared state
  nor the synthesized name of another declared combination.
\<close>

definition unambiguous :: "config_Lexer \<Rightarrow> string list \<Rightarrow> bool" where
  "unambiguous cfg c =
     (combinedStateName c \<notin> Name ` set (States cfg) \<and>
      (\<forall>c'. declaredCombination cfg c' \<and> combinedStateName c' = combinedStateName c \<longrightarrow> c' = c))"

text \<open>
  What the second pass of \<open>build\<close> keeps true of its table: an entry whose name is not in
  \<open>K\<close> was synthesized for a combination of \<open>D\<close> with that name, from states the table
  holds, as the concatenation of their rules.
\<close>

definition combInv :: "string set \<Rightarrow> string list set \<Rightarrow> 're rules \<Rightarrow> bool" where
  "combInv K D tbl =
     (\<forall>n st. map_of tbl n = Some st \<longrightarrow>
        n \<in> K \<or>
        (\<exists>c\<in>D. combinedStateName c = n \<and> (\<forall>m\<in>set c. map_of tbl m \<noteq> None) \<and>
           rules st = concat (map (stateRules tbl) c)))"

section \<open>Sample configurations\<close>

definition plainRule :: "string \<Rightarrow> config_Rule" where
  "plainRule pat =
     \<lparr>Pattern = pat, Token = None, Pop = None, Push = None, Include = None,
      Combined = None, ByGroups = None, UsingSelf = None\<rparr>"

definition noConfig :: config_Config where
  "noConfig = \<lparr>LexerName = '''', Aliases = [], Filenames = [], MimeTypes = [], Priority = 0\<rparr>"

text \<open>A configuration whose only state is not called \<open>root\<close>.\<close>

definition cfgNoRoot :: config_Lexer where
  "cfgNoRoot = \<lparr>Config = noConfig, States = [\<lparr>Name = ''main'', Rules = []\<rparr>]\<rparr>"

text \<open>
  Two rules of \<open>root\<close> declare the combinations \<open>[a__b]\<close> and \<open>[a, b]\<close>; the states
  \<open>a\<close>, \<open>b\<close> and \<open>a__b\<close> hold one rule each, with the patterns 1, 2 and 3.
\<close>

definition cfgAB :: config_Lexer where
  "cfgAB =
     \<lparr>Config = noConfig,
      States =
        [\<lparr>Name = ''root'',
          Rules = [(plainRule ''x'')\<lparr>Combined := Some [''a__b'']\<rparr>,
                   (plainRule ''y'')\<lparr>Combined := Some [''a'', ''b'']\<rparr>]\<rparr>,
         \<lparr>Name = ''a'', Rules = [plainRule ''1'']\<rparr>,
         \<lparr>Name = ''b'', Rules = [plainRule ''2'']\<rparr>,
         \<lparr>Name = ''a__b'', Rules = [plainRule ''3'']\<rparr>]\<rparr>"

text \<open>A registered lexer for Go files.\<close>

definition goLexer :: "string Lexer" where
  "goLexer =
     \<lparr>config = \<lparr>Config = noConfig\<lparr>LexerName := ''Go'', Filenames := [''*.go'']\<rparr>, States = []\<rparr>,
      lexer_rules = []\<rparr>"

definition goRegistry :: "string LexerRegistry" where
  "goRegistry = \<lparr>Lexers = [goLexer], byName = Map.empty, byAlias = Map.empty\<rparr>"

text \<open>A rule with an empty pattern whose only directive is a combination.\<close>

definition cfgBare :: config_Lexer where
  "cfgBare =
     \<lparr>Config = noConfig,
      States = [\<lparr>Name = ''root'', Rules = [(plainRule '''')\<lparr>Combined := Some [''root'']\<rparr>]\<rparr>]\<rparr>"

text \<open>A sound rule followed by a rule with both a push and a pop.\<close>

definition cfgPushPop :: config_Lexer where
  "cfgPushPop =
     \<lparr>Config = noConfig,
      States = [\<lparr>Name = ''root'',
                Rules = [plainRule ''a'',
                         (plainRule ''b'')\<lparr>Push := Some ''root'', Pop := Some 1\<rparr>]\<rparr>]\<rparr>"

text \<open>
  A compiler that refuses the pattern of an unclosed group and takes every other pattern
  as it is, and a configuration whose second rule has that pattern.
\<close>

definition compileStrict :: "string \<Rightarrow> string option" where
  "compileStrict pat = (if pat = anchored ''('' then None else Some pat)"

definition cfgBadPattern :: config_Lexer where
  "cfgBadPattern =
     \<lparr>Config = noConfig,
      States = [\<lparr>Name = ''root'', Rules = [plainRule ''a'', plainRule ''('']\<rparr>]\<rparr>"

text \<open>An include-only rule.\<close>

definition includeRule :: "string \<Rightarrow> config_Rule" where
  "includeRule s = (plainRule '''')\<lparr>Include := Some s\<rparr>"

text \<open>\<open>root\<close> includes \<open>b\<close> between two rules of its own; \<open>b\<close> includes \<open>c\<close>.\<close>

definition cfgABC :: config_Lexer where
  "cfgABC =
     \<lparr>Config = noConfig,
      States =
        [\<lparr>Name = ''root'', Rules = [plainRule ''r1'', includeRule ''b'', plainRule ''r2'']\<rparr>,
         \<lparr>Name = ''b'', Rules = [includeRule ''c'', plainRule ''b1'']\<rparr>,
         \<lparr>Name = ''c'', Rules = [plainRule ''c1'']\<rparr>]\<rparr>"

text \<open>\<open>root\<close> includes itself.\<close>

definition cfgSelfInclude :: config_Lexer where
  "cfgSelfInclude =
     \<lparr>Config = noConfig, States = [\<lparr>Name = ''root'', Rules = [includeRule ''root'']\<rparr>]\<rparr>"

text \<open>\<open>root\<close> includes two states that are not declared.\<close>

definition cfgTwoIncludes :: config_Lexer where
  "cfgTwoIncludes =
     \<lparr>Config = noConfig,
      States = [\<lparr>Name = ''root'', Rules = [includeRule ''x'', includeRule ''y'']\<rparr>]\<rparr>"

text \<open>Three push rules; the targets of the first and the last are not declared.\<close>

definition cfgDanglingPush :: config_Lexer where
  "cfgDanglingPush =
     \<lparr>Config = noConfig,
      States = [\<lparr>Name = ''root'',
                Rules = [(plainRule ''a'')\<lparr>Push := Some ''nowhere''\<rparr>,
                         (plainRule ''b'')\<lparr>Push := Some ''root''\<rparr>,
                         (plainRule ''c'')\<lparr>Push := Some ''void''\<rparr>]\<rparr>]\<rparr>"

text \<open>One rule of \<open>root\<close> declares the combination of \<open>a\<close> and \<open>b\<close>.\<close>

definition cfgCombined :: config_Lexer where
  "cfgCombined =
     \<lparr>Config = noConfig,
      States =
        [\<lparr>Name = ''root'', Rules = [(plainRule ''x'')\<lparr>Combined := Some [''a'', ''b'']\<rparr>]\<rparr>,
         \<lparr>Name = ''a'', Rules = [plainRule ''1'']\<rparr>,
         \<lparr>Name = ''b'', Rules = [plainRule ''2'']\<rparr>]\<rparr>"

section \<open>Sample state tables for the tokenizer\<close>










text \<open>A rule whose pattern does not compile and which has both a push and a pop.\<close>

definition cfgBadBoth :: config_Lexer where
  "cfgBadBoth =
     \<lparr>Config = noConfig,
      States = [\<lparr>Name = ''root'',
                Rules = [(plainRule ''('')\<lparr>Push := Some ''root'', Pop := Some 1\<rparr>]\<rparr>]\<rparr>"

text \<open>\<open>root\<close> includes \<open>b\<close>, and \<open>b\<close> includes a state that is not declared.\<close>

definition cfgDanglingChain :: config_Lexer where
  "cfgDanglingChain =
     \<lparr>Config = noConfig,
      States = [\<lparr>Name = ''root'', Rules = [includeRule ''b'']\<rparr>,
                \<lparr>Name = ''b'', Rules = [plainRule ''b1'', includeRule ''x'']\<rparr>]\<rparr>"

section \<open>Evaluation\<close>

lemmas build_defs =
  Build_def build_def CheckIgnore_def newRules_def AddState_def Get_def Contains_def
  createCombinedStates_def createCombinedStateInRule_def buildRule_def checkRule_def
  makeRule_def setRuleFieldsFrom_def updatePushForCombinedState_def resolveIncludes_def

section \<open>The first pass of build: one rule after the other\<close>

lemma builds_D: "builds c t cr \<Longrightarrow> \<exists>r. buildRule c t cr = Inr r"
  by (cases "buildRule c t cr") (simp_all add: builds_def)

lemma ruleSequence_append:
  "ruleSequence c t (xs @ ys) =
     (case ruleSequence c t xs of
        Inl e \<Rightarrow> Inl e
      | Inr rs \<Rightarrow> (case ruleSequence c t ys of Inl e \<Rightarrow> Inl e | Inr rs' \<Rightarrow> Inr (rs @ rs')))"
  by (induction xs) (auto split: sum.splits)

lemma ruleSequence_Inr_iff:
  "(\<exists>rs. ruleSequence c t crs = Inr rs) \<longleftrightarrow> (\<forall>cr\<in>set crs. builds c t cr)"
proof (induction crs)
  case Nil
  then show ?case by simp
next
  case (Cons a crs)
  show ?case
  proof (cases "buildRule c t a")
    case (Inl e)
    then show ?thesis by (simp add: builds_def)
  next
    case (Inr r)
    show ?thesis
    proof (cases "ruleSequence c t crs")
      case (Inl e)
      with Inr Cons.IH show ?thesis by auto
    next
      case (Inr rs)
      with \<open>buildRule c t a = Inr r\<close> Cons.IH show ?thesis by (auto simp: builds_def)
    qed
  qed
qed

lemma ruleSequence_fails_at:
  assumes "\<forall>r\<in>set pre. builds c t r" and "buildRule c t cr = Inl e"
  shows "ruleSequence c t (pre @ cr # post) = Inl e"
proof -
  from assms(1) obtain rs where "ruleSequence c t pre = Inr rs"
    using ruleSequence_Inr_iff[of c t pre] by blast
  with assms(2) show ?thesis by (simp add: ruleSequence_append)
qed

lemma ruleSequence_first_failure:
  "ruleSequence c t crs = Inl e \<Longrightarrow>
     \<exists>pre cr post. crs = pre @ cr # post \<and> (\<forall>r\<in>set pre. builds c t r) \<and>
        buildRule c t cr = Inl e"
proof (induction crs)
  case Nil
  then show ?case by simp
next
  case (Cons a crs)
  show ?case
  proof (cases "buildRule c t a")
    case (Inl e')
    with Cons.prems have "a # crs = [] @ a # crs \<and> (\<forall>r\<in>set []. builds c t r) \<and> buildRule c t a = Inl e"
      by simp
    then show ?thesis by blast
  next
    case (Inr r)
    then have ba: "builds c t a" by (simp add: builds_def)
    from Inr Cons.prems have "ruleSequence c t crs = Inl e" by (simp split: sum.splits)
    with Cons.IH obtain pre cr post where h: "crs = pre @ cr # post" "\<forall>r\<in>set pre. builds c t r"
        "buildRule c t cr = Inl e" by blast
    then have "a # crs = (a # pre) @ cr # post \<and> (\<forall>r\<in>set (a # pre). builds c t r) \<and> buildRule c t cr = Inl e"
      using ba by simp
    then show ?thesis by blast
  qed
qed

lemma ruleSequence_Inl_iff:
  "ruleSequence c t crs = Inl e \<longleftrightarrow>
     (\<exists>pre cr post. crs = pre @ cr # post \<and> (\<forall>r\<in>set pre. builds c t r) \<and>
        buildRule c t cr = Inl e)"
  using ruleSequence_first_failure ruleSequence_fails_at by blast

lemma addStates_Inl_iff:
  "addStates c t tbl sts = Inl e \<longleftrightarrow> ruleSequence c t (concat (map Rules sts)) = Inl e"
  by (induction sts arbitrary: tbl) (auto simp: ruleSequence_append split: sum.splits)

lemma addStates_Inr:
  "addStates c t tbl sts = Inr T \<Longrightarrow> \<exists>rs. ruleSequence c t (concat (map Rules sts)) = Inr rs"
  by (induction sts arbitrary: tbl) (auto simp: ruleSequence_append split: sum.splits)

lemma checkRule_conflict: "checkRule cr = Some e \<Longrightarrow> isConflictingRuleAction e"
  by (auto simp: checkRule_def split: if_splits)

lemma checkRule_rejects:
  "checkRule cr \<noteq> None \<longleftrightarrow> noPatternNoTransition cr \<or> incompatibleActions cr"
  by (auto simp: checkRule_def noPatternNoTransition_def incompatibleActions_def)

lemma byGroupElements_error:
  "byGroupElements t acc es = Inl e \<Longrightarrow> \<exists>ty. e = InvalidTokenType ty"
  by (induction t acc es rule: byGroupElements.induct) (auto split: option.splits)

lemma setRuleFieldsFrom_error:
  "setRuleFieldsFrom t r cr = Inl e \<Longrightarrow> \<exists>ty. e = InvalidTokenType ty"
  by (auto simp: setRuleFieldsFrom_def Let_def split: option.splits sum.splits dest: byGroupElements_error)

lemma buildRule_error:
  "buildRule c t cr = Inl e \<Longrightarrow>
     checkRule cr = Some e \<or>
     (checkRule cr = None \<and> c (anchored (Pattern cr)) = None \<and> e = InvalidPattern (anchored (Pattern cr))) \<or>
     (checkRule cr = None \<and> (\<exists>ty. e = InvalidTokenType ty))"
  by (auto simp: buildRule_def makeRule_def split: option.splits sum.splits dest: setRuleFieldsFrom_error)

lemma buildRule_conflict_iff:
  "(\<exists>e. buildRule c t cr = Inl e \<and> isConflictingRuleAction e) \<longleftrightarrow> checkRule cr \<noteq> None"
proof
  assume "\<exists>e. buildRule c t cr = Inl e \<and> isConflictingRuleAction e"
  then obtain e where e: "buildRule c t cr = Inl e" "isConflictingRuleAction e" by blast
  from buildRule_error[OF e(1)] e(2) show "checkRule cr \<noteq> None" by auto
next
  assume "checkRule cr \<noteq> None"
  then obtain e where e: "checkRule cr = Some e" by auto
  then have "buildRule c t cr = Inl e" by (simp add: buildRule_def)
  with checkRule_conflict[OF e] show "\<exists>e. buildRule c t cr = Inl e \<and> isConflictingRuleAction e"
    by blast
qed

lemma appendSubstates_error:
  "appendSubstates tbl sn acc ns = Inl e \<Longrightarrow> e = NoSuchSubstate sn"
  by (induction ns arbitrary: acc) (auto split: option.splits)

lemma createCombinedStatesLoop_error:
  "createCombinedStatesLoop tbl sn crs = Inl e \<Longrightarrow> e = NoSuchSubstate sn"
  by (induction crs arbitrary: tbl)
     (auto simp: createCombinedStateInRule_def split: sum.splits option.splits if_splits dest: appendSubstates_error)

lemma combineStates_error:
  "combineStates tbl sts = Inl e \<Longrightarrow> \<exists>sn. e = NoSuchSubstate sn"
  by (induction sts arbitrary: tbl)
     (auto simp: createCombinedStates_def split: sum.splits dest: createCombinedStatesLoop_error)

lemma resolveIncludesIn_error:
  "resolveIncludesIn fuel tbl acc rs = Some (Inl e) \<Longrightarrow> \<exists>s. e = NoSuchInclude s"
  by (induction fuel tbl acc rs rule: resolveIncludesIn.induct)
     (auto split: if_splits option.splits nat.splits sum.splits)

lemma resolveStates_error:
  "resolveStates fuel tbl new es = Some (Inl e) \<Longrightarrow> \<exists>s. e = NoSuchInclude s"
  by (induction es arbitrary: new)
     (auto split: option.splits sum.splits dest: resolveIncludesIn_error)

lemma Build_Panicked_cases:
  "Build fuel c t cfg = Some (Panicked e) \<Longrightarrow>
     ruleSequence c t (allRules cfg) = Inl e \<or> (\<exists>s. e = NoSuchSubstate s) \<or> (\<exists>s. e = NoSuchInclude s)"
  by (auto simp: Build_def build_def Let_def allRules_def addStates_Inl_iff resolveIncludes_def
      split: sum.splits option.splits dest: combineStates_error resolveStates_error)

lemma Build_phase1_failure:
  assumes "ruleSequence c t (allRules cfg) = Inl e"
  shows "Build fuel c t cfg = Some (Panicked e)"
proof -
  from assms have "addStates c t newRules (States cfg) = Inl e"
    by (simp add: allRules_def addStates_Inl_iff)
  then show ?thesis by (simp add: Build_def build_def Let_def)
qed

section \<open>Where the rules of a built table come from\<close>

lemma set_update_subset: "set (AList.update k v al) \<subseteq> insert (k, v) (set al)"
  by (induction al) auto

lemma rulesIn_AddState: "rulesIn (AddState tbl s) \<subseteq> set (rules s) \<union> rulesIn tbl"
  using set_update_subset[of "name s" s tbl] by (fastforce simp: rulesIn_def AddState_def)

lemma rulesIn_update:
  "rulesIn (AList.update k s tbl) \<subseteq> set (rules s) \<union> rulesIn tbl"
  using set_update_subset[of k s tbl] by (fastforce simp: rulesIn_def)

lemma Get_rulesIn: "Get tbl n = Some st \<Longrightarrow> set (rules st) \<subseteq> rulesIn tbl"
  by (auto simp: Get_def rulesIn_def dest!: map_of_SomeD)

lemma setRuleFieldsFrom_pattern:
  "setRuleFieldsFrom t r cr = Inr r' \<Longrightarrow> pattern r' = pattern r"
  by (auto simp: setRuleFieldsFrom_def Let_def split: option.splits sum.splits)

lemma buildRule_pattern:
  "buildRule c t cr = Inr r \<Longrightarrow>
     c (anchored (Pattern cr)) = Some (re (pattern r)) \<and> MatchTimeout (pattern r) = 250 * Millisecond"
  by (auto simp: buildRule_def makeRule_def updatePushForCombinedState_def
      split: option.splits sum.splits dest!: setRuleFieldsFrom_pattern)

lemma ruleSequence_provenance:
  "ruleSequence c t crs = Inr rs \<Longrightarrow> r \<in> set rs \<Longrightarrow> \<exists>cr\<in>set crs. buildRule c t cr = Inr r"
  by (induction crs arbitrary: rs) (auto split: sum.splits)

lemma addStates_provenance:
  "addStates c t tbl sts = Inr T \<Longrightarrow> r \<in> rulesIn T \<Longrightarrow>
     r \<in> rulesIn tbl \<or> (\<exists>cr\<in>set (concat (map Rules sts)). buildRule c t cr = Inr r)"
proof (induction sts arbitrary: tbl)
  case Nil
  then show ?case by simp
next
  case (Cons s sts)
  from Cons.prems(1) obtain seq where seq: "ruleSequence c t (Rules s) = Inr seq"
    and rest: "addStates c t (AddState tbl \<lparr>name = Name s, rules = seq\<rparr>) sts = Inr T"
    by (auto split: sum.splits)
  from Cons.IH[OF rest Cons.prems(2)]
  consider "r \<in> rulesIn (AddState tbl \<lparr>name = Name s, rules = seq\<rparr>)"
    | "\<exists>cr\<in>set (concat (map Rules sts)). buildRule c t cr = Inr r" by blast
  then show ?case
  proof cases
    case 1
    with rulesIn_AddState[of tbl "\<lparr>name = Name s, rules = seq\<rparr>"]
    have "r \<in> set seq \<or> r \<in> rulesIn tbl" by auto
    with ruleSequence_provenance[OF seq] show ?thesis by auto
  next
    case 2
    then show ?thesis by auto
  qed
qed

lemma appendSubstates_subset:
  "appendSubstates tbl sn acc ns = Inr rs \<Longrightarrow> set rs \<subseteq> set acc \<union> rulesIn tbl"
proof (induction ns arbitrary: acc)
  case Nil
  then show ?case by simp
next
  case (Cons n ns)
  from Cons.prems obtain st where st: "Get tbl n = Some st"
    and rest: "appendSubstates tbl sn (acc @ rules st) ns = Inr rs"
    by (auto split: option.splits)
  from Cons.IH[OF rest] Get_rulesIn[OF st] show ?case by auto
qed

lemma createCombinedStateInRule_rulesIn:
  "createCombinedStateInRule tbl sn cr = Inr T \<Longrightarrow> rulesIn T \<subseteq> rulesIn tbl"
proof -
  assume a: "createCombinedStateInRule tbl sn cr = Inr T"
  show ?thesis
  proof (cases "Combined cr")
    case None
    with a show ?thesis by (simp add: createCombinedStateInRule_def)
  next
    case (Some cs)
    show ?thesis
    proof (cases "Contains tbl (combinedStateName cs)")
      case True
      with a Some show ?thesis by (simp add: createCombinedStateInRule_def)
    next
      case False
      with a Some obtain rs where rs: "appendSubstates tbl sn [] cs = Inr rs"
        and T: "T = AddState tbl \<lparr>name = combinedStateName cs, rules = rs\<rparr>"
        by (auto simp: createCombinedStateInRule_def split: sum.splits)
      from appendSubstates_subset[OF rs] rulesIn_AddState[of tbl "\<lparr>name = combinedStateName cs, rules = rs\<rparr>"] T
      show ?thesis by auto
    qed
  qed
qed

lemma createCombinedStatesLoop_rulesIn:
  "createCombinedStatesLoop tbl sn crs = Inr T \<Longrightarrow> rulesIn T \<subseteq> rulesIn tbl"
proof (induction crs arbitrary: tbl)
  case Nil
  then show ?case by simp
next
  case (Cons cr crs)
  from Cons.prems obtain tbl' where 1: "createCombinedStateInRule tbl sn cr = Inr tbl'"
    and 2: "createCombinedStatesLoop tbl' sn crs = Inr T"
    by (auto split: sum.splits)
  from Cons.IH[OF 2] createCombinedStateInRule_rulesIn[OF 1] show ?case by blast
qed

lemma combineStates_rulesIn:
  "combineStates tbl sts = Inr T \<Longrightarrow> rulesIn T \<subseteq> rulesIn tbl"
proof (induction sts arbitrary: tbl)
  case Nil
  then show ?case by simp
next
  case (Cons s sts)
  from Cons.prems obtain tbl' where 1: "createCombinedStatesLoop tbl (Name s) (Rules s) = Inr tbl'"
    and 2: "combineStates tbl' sts = Inr T"
    by (auto simp: createCombinedStates_def split: sum.splits)
  from Cons.IH[OF 2] createCombinedStatesLoop_rulesIn[OF 1] show ?case by blast
qed

lemma resolveIncludesIn_subset:
  "resolveIncludesIn fuel tbl acc rs = Some (Inr out) \<Longrightarrow>
     set out \<subseteq> set acc \<union> {r \<in> set rs \<union> rulesIn tbl. rinclude r = ''''}"
proof (induction fuel tbl acc rs arbitrary: out rule: resolveIncludesIn.induct)
  case (1 fuel tbl acc)
  then show ?case by simp
next
  case (2 fuel tbl acc rl rest)
  show ?case
  proof (cases "rinclude rl \<noteq> ''''")
    case False
    with "2.prems" have "resolveIncludesIn fuel tbl (acc @ [rl]) rest = Some (Inr out)" by simp
    from "2.IH"(3)[OF False this] False show ?thesis by auto
  next
    case True
    with "2.prems" obtain st fuel' resolved where
      st: "Get tbl (rinclude rl) = Some st" and f: "fuel = Suc fuel'"
      and r1: "resolveIncludesIn fuel' tbl [] (rules st) = Some (Inr resolved)"
      and r2: "resolveIncludesIn fuel tbl (acc @ resolved) rest = Some (Inr out)"
      by (auto split: option.splits nat.splits sum.splits)
    from "2.IH"(1)[OF True st f r1] Get_rulesIn[OF st]
    have a: "set resolved \<subseteq> {r \<in> rulesIn tbl. rinclude r = ''''}" by auto
    from "2.IH"(2)[OF True st f r1 refl r2] a show ?thesis by auto
  qed
qed

lemma resolveStates_rulesIn:
  "resolveStates fuel tbl new es = Some (Inr T) \<Longrightarrow> set es \<subseteq> set tbl \<Longrightarrow>
     rulesIn T \<subseteq> rulesIn new \<union> {r \<in> rulesIn tbl. rinclude r = ''''}"
proof (induction es arbitrary: new)
  case Nil
  then show ?case by simp
next
  case (Cons e es)
  obtain nm st where e: "e = (nm, st)" by (cases e)
  from Cons.prems(1) e obtain list where
    l: "resolveIncludesIn fuel tbl [] (rules st) = Some (Inr list)"
    and rest: "resolveStates fuel tbl (AList.update nm (st\<lparr>rules := list\<rparr>) new) es = Some (Inr T)"
    by (auto split: option.splits sum.splits)
  from Cons.prems(2) e have "set (rules st) \<subseteq> rulesIn tbl" by (auto simp: rulesIn_def)
  with resolveIncludesIn_subset[OF l]
  have a: "set list \<subseteq> {r \<in> rulesIn tbl. rinclude r = ''''}" by auto
  from Cons.prems(2) have "set es \<subseteq> set tbl" by simp
  from Cons.IH[OF rest this] rulesIn_update[of nm "st\<lparr>rules := list\<rparr>" new] a
  show ?case by auto
qed

lemma rulesIn_Nil [simp]: "rulesIn [] = {}"
  by (simp add: rulesIn_def)

lemma Build_Returned_D:
  "Build fuel c t cfg = Some (Returned lx err) \<Longrightarrow>
     \<exists>T0 T. addStates c t newRules (States cfg) = Inr T0 \<and> combineStates T0 (States cfg) = Inr T \<and>
        build c t cfg = Inr T \<and>
        resolveStates fuel T [] T = Some (Inr (lexer_rules lx)) \<and> err = None \<and> config lx = cfg"
  by (auto simp: Build_def build_def Let_def resolveIncludes_def split: sum.splits option.splits)

lemma Build_provenance:
  assumes "Build fuel c t cfg = Some (Returned lx err)" and "r \<in> rulesIn (lexer_rules lx)"
  shows "(\<exists>cr\<in>set (allRules cfg). buildRule c t cr = Inr r) \<and> rinclude r = ''''"
proof -
  from Build_Returned_D[OF assms(1)] obtain T0 T where
    a: "addStates c t newRules (States cfg) = Inr T0" and b: "combineStates T0 (States cfg) = Inr T"
    and r: "resolveStates fuel T [] T = Some (Inr (lexer_rules lx))" by blast
  from resolveStates_rulesIn[OF r] assms(2) have 1: "r \<in> rulesIn T" "rinclude r = ''''" by auto
  with combineStates_rulesIn[OF b] have "r \<in> rulesIn T0" by auto
  with addStates_provenance[OF a] have "\<exists>cr\<in>set (allRules cfg). buildRule c t cr = Inr r"
    by (auto simp: newRules_def allRules_def)
  with 1 show ?thesis by simp
qed

section \<open>What validate computes\<close>

lemma findRoot_iff: "findRoot b ss \<longleftrightarrow> b \<or> (\<exists>s\<in>set ss. Name s = ''root'')"
  by (induction ss arbitrary: b) auto

lemma collectNames_eq: "collectNames A ss = A \<union> Name ` set ss"
  by (induction ss arbitrary: A) auto

lemma missingInRules_eq:
  "missingInRules A acc rs =
     acc @ filter (\<lambda>target. target \<noteq> '''' \<and> target \<notin> A) (List.map_filter Push rs)"
  by (induction rs arbitrary: acc) (auto simp: List.map_filter_simps split: option.splits)

lemma map_filter_append: "List.map_filter f (xs @ ys) = List.map_filter f xs @ List.map_filter f ys"
  by (simp add: List.map_filter_def)

lemma missingInStates_eq:
  "missingInStates A acc ss =
     acc @ filter (\<lambda>target. target \<noteq> '''' \<and> target \<notin> A) (List.map_filter Push (concat (map Rules ss)))"
  by (induction ss arbitrary: acc) (auto simp: missingInRules_eq map_filter_append List.map_filter_simps)

lemma validate_eq:
  "validate cfg =
     (if \<not> (\<exists>s\<in>set (States cfg). Name s = ''root'') then Some NoRootState
      else makeMissingError (undefinedPushTargets cfg))"
  by (simp add: validate_def findRoot_iff collectNames_eq missingInStates_eq
      undefinedPushTargets_def allRules_def)

section \<open>Include resolution: accumulator, depth bound, missing states\<close>

lemma prefix_twice:
  "map_option (map_sum id ((@) a)) (map_option (map_sum id ((@) b)) X) =
   map_option (map_sum id ((@) (a @ b))) X"
proof (cases X)
  case None
  then show ?thesis by simp
next
  case (Some y)
  then show ?thesis by (cases y) simp_all
qed

lemma resolveIncludesIn_acc:
  "resolveIncludesIn fuel tbl acc rs =
     map_option (map_sum id ((@) acc)) (resolveIncludesIn fuel tbl [] rs)"
proof (induction rs arbitrary: acc)
  case Nil
  then show ?case by simp
next
  case (Cons rl rest)
  have shift: "resolveIncludesIn fuel tbl (acc @ b) rest =
      map_option (map_sum id ((@) acc)) (resolveIncludesIn fuel tbl b rest)" for b
  proof -
    have "resolveIncludesIn fuel tbl (acc @ b) rest =
        map_option (map_sum id ((@) (acc @ b))) (resolveIncludesIn fuel tbl [] rest)"
      by (rule Cons.IH)
    also have "\<dots> = map_option (map_sum id ((@) acc))
        (map_option (map_sum id ((@) b)) (resolveIncludesIn fuel tbl [] rest))"
      by (simp only: prefix_twice)
    also have "map_option (map_sum id ((@) b)) (resolveIncludesIn fuel tbl [] rest) =
        resolveIncludesIn fuel tbl b rest"
      by (rule Cons.IH[symmetric])
    finally show ?thesis .
  qed
  show ?case
  proof (cases "rinclude rl \<noteq> ''''")
    case False
    then show ?thesis using shift[of "[rl]"] by (simp add: id_def)
  next
    case True
    show ?thesis
    proof (cases "Get tbl (rinclude rl)")
      case None
      with True show ?thesis by simp
    next
      case (Some st)
      show ?thesis
      proof (cases fuel)
        case 0
        with True Some show ?thesis by simp
      next
        case (Suc fuel')
        show ?thesis
        proof (cases "resolveIncludesIn fuel' tbl [] (rules st)")
          case None
          with True Some Suc show ?thesis by simp
        next
          case (Some x)
          show ?thesis
          proof (cases x)
            case (Inl e)
            with True \<open>Get tbl (rinclude rl) = Some st\<close> Suc Some show ?thesis by simp
          next
            case (Inr resolved)
            with True \<open>Get tbl (rinclude rl) = Some st\<close> Suc Some shift[of resolved]
            show ?thesis by (simp add: id_def)
          qed
        qed
      qed
    qed
  qed
qed

lemma resolveIncludesIn_mono:
  "resolveIncludesIn f tbl acc rs = Some x \<Longrightarrow> f \<le> f' \<Longrightarrow> resolveIncludesIn f' tbl acc rs = Some x"
proof (induction f tbl acc rs arbitrary: x f' rule: resolveIncludesIn.induct)
  case (1 fuel tbl acc)
  then show ?case by simp
next
  case (2 fuel tbl acc rl rest)
  show ?case
  proof (cases "rinclude rl \<noteq> ''''")
    case False
    with "2.prems" have "resolveIncludesIn fuel tbl (acc @ [rl]) rest = Some x" by simp
    from "2.IH"(3)[OF False this "2.prems"(2)] False show ?thesis by simp
  next
    case True
    show ?thesis
    proof (cases "Get tbl (rinclude rl)")
      case None
      with True "2.prems" show ?thesis by simp
    next
      case (Some st)
      with True "2.prems" obtain fuel' y where f: "fuel = Suc fuel'"
        and r1: "resolveIncludesIn fuel' tbl [] (rules st) = Some y"
        by (auto split: nat.splits option.splits)
      from f "2.prems"(2) obtain g where g: "f' = Suc g" "fuel' \<le> g" by (cases f') auto
      from "2.IH"(1)[OF True Some f r1 g(2)]
      have n1: "resolveIncludesIn g tbl [] (rules st) = Some y" .
      show ?thesis
      proof (cases y)
        case (Inl e)
        with True Some f r1 "2.prems"(1) have "x = Inl e" by simp
        with True Some g n1 Inl show ?thesis by simp
      next
        case (Inr resolved)
        with True Some f r1 "2.prems"
        have r2: "resolveIncludesIn fuel tbl (acc @ resolved) rest = Some x" by simp
        from "2.IH"(2)[OF True Some f r1 Inr r2 "2.prems"(2)]
        have "resolveIncludesIn f' tbl (acc @ resolved) rest = Some x" .
        with True Some g n1 Inr show ?thesis by simp
      qed
    qed
  qed
qed


lemma resolveIncludesIn_dangling:
  "r \<in> set rs \<Longrightarrow> rinclude r \<noteq> '''' \<Longrightarrow> Get tbl (rinclude r) = None \<Longrightarrow>
     resolveIncludesIn fuel tbl acc rs \<noteq> Some (Inr out)"
proof (induction rs arbitrary: acc)
  case Nil
  then show ?case by simp
next
  case (Cons rl rest)
  show ?case
  proof (cases "rl = r")
    case True
    with Cons.prems show ?thesis by simp
  next
    case False
    with Cons.prems have "r \<in> set rest" by simp
    from Cons.IH[OF this Cons.prems(2,3)] show ?thesis
      by (auto split: option.splits nat.splits sum.splits)
  qed
qed

lemma resolveStates_dangling:
  "(n, st) \<in> set es \<Longrightarrow> r \<in> set (rules st) \<Longrightarrow> rinclude r \<noteq> '''' \<Longrightarrow>
     Get tbl (rinclude r) = None \<Longrightarrow> resolveStates fuel tbl new es \<noteq> Some (Inr out)"
proof (induction es arbitrary: new)
  case Nil
  then show ?case by simp
next
  case (Cons e es)
  obtain nm s where e: "e = (nm, s)" by (cases e)
  show ?case
  proof (cases "e = (n, st)")
    case True
    with e Cons.prems resolveIncludesIn_dangling[of r "rules st" tbl fuel "[]"]
    show ?thesis by (auto split: option.splits sum.splits)
  next
    case False
    with Cons.prems have "(n, st) \<in> set es" by simp
    from Cons.IH[OF this Cons.prems(2,3,4)] e show ?thesis
      by (auto split: option.splits sum.splits)
  qed
qed

lemma Build_dangling_include:
  assumes "build c t cfg = Inr T" and "danglingInclude T"
  shows "Build fuel c t cfg = None \<or> (\<exists>s. Build fuel c t cfg = Some (Panicked (NoSuchInclude s)))"
proof -
  from assms(2) obtain n st r where h: "(n, st) \<in> set T" "r \<in> set (rules st)"
    "rinclude r \<noteq> ''''" "Get T (rinclude r) = None"
    by (auto simp: danglingInclude_def rulesIn_def)
  show ?thesis
  proof (cases "resolveStates fuel T [] T")
    case None
    with assms(1) show ?thesis by (simp add: Build_def Let_def resolveIncludes_def)
  next
    case (Some x)
    show ?thesis
    proof (cases x)
      case (Inl e)
      with Some resolveStates_error obtain s where "e = NoSuchInclude s" by blast
      with Some Inl assms(1) show ?thesis by (simp add: Build_def Let_def resolveIncludes_def)
    next
      case (Inr out)
      with Some resolveStates_dangling[OF h, of fuel "[]" out] show ?thesis by simp
    qed
  qed
qed

section \<open>The table that Build returns, entry by entry\<close>

lemma AddState_distinct: "distinct (map fst tbl) \<Longrightarrow> distinct (map fst (AddState tbl s))"
  by (simp add: AddState_def distinct_update)

lemma addStates_distinct:
  "addStates c t tbl sts = Inr T \<Longrightarrow> distinct (map fst tbl) \<Longrightarrow> distinct (map fst T)"
  by (induction sts arbitrary: tbl) (auto simp: AddState_distinct split: sum.splits)

lemma createCombinedStatesLoop_distinct:
  "createCombinedStatesLoop tbl sn crs = Inr T \<Longrightarrow> distinct (map fst tbl) \<Longrightarrow> distinct (map fst T)"
  by (induction crs arbitrary: tbl)
     (auto simp: createCombinedStateInRule_def AddState_distinct split: sum.splits option.splits if_splits)

lemma combineStates_distinct:
  "combineStates tbl sts = Inr T \<Longrightarrow> distinct (map fst tbl) \<Longrightarrow> distinct (map fst T)"
  by (induction sts arbitrary: tbl)
     (auto simp: createCombinedStates_def split: sum.splits dest: createCombinedStatesLoop_distinct)

lemma build_distinct: "build c t cfg = Inr T \<Longrightarrow> distinct (map fst T)"
  by (auto simp: build_def newRules_def split: sum.splits
      dest!: addStates_distinct combineStates_distinct)

text \<open>The table that resolveStates returns, entry by entry.\<close>

lemma resolveStates_lookup:
  "resolveStates fuel tbl new es = Some (Inr F) \<Longrightarrow> distinct (map fst es) \<Longrightarrow>
     (case map_of es n of
        None \<Rightarrow> map_of F n = map_of new n
      | Some st \<Rightarrow> (\<exists>out. resolveIncludesIn fuel tbl [] (rules st) = Some (Inr out) \<and>
                       map_of F n = Some (st\<lparr>rules := out\<rparr>)))"
proof (induction es arbitrary: new)
  case Nil
  then show ?case by simp
next
  case (Cons e es)
  obtain nm s where e: "e = (nm, s)" by (cases e)
  from Cons.prems(1) e obtain list where
    l: "resolveIncludesIn fuel tbl [] (rules s) = Some (Inr list)"
    and rest: "resolveStates fuel tbl (AList.update nm (s\<lparr>rules := list\<rparr>) new) es = Some (Inr F)"
    by (auto split: option.splits sum.splits)
  from Cons.prems(2) e have d: "distinct (map fst es)" and nm: "nm \<notin> fst ` set es" by auto
  note IH = Cons.IH[OF rest d]
  show ?case
  proof (cases "n = nm")
    case True
    with nm have "map_of es n = None" by (simp add: map_of_eq_None_iff)
    with IH have "map_of F n = map_of (AList.update nm (s\<lparr>rules := list\<rparr>) new) n" by simp
    with True e l show ?thesis by (simp add: update_conv')
  next
    case False
    with IH e show ?thesis by (auto simp: update_conv' split: option.splits)
  qed
qed

lemma Build_final_entry:
  assumes "Build fuel c t cfg = Some (Returned lx err)" and "build c t cfg = Inr T"
    and "Get T n = Some st"
  shows "\<exists>out. resolveIncludesIn fuel T [] (rules st) = Some (Inr out) \<and>
           Get (lexer_rules lx) n = Some (st\<lparr>rules := out\<rparr>)"
proof -
  from Build_Returned_D[OF assms(1)] assms(2)
  have r: "resolveStates fuel T [] T = Some (Inr (lexer_rules lx))" by auto
  from resolveStates_lookup[OF r build_distinct[OF assms(2)], of n] assms(3)
  show ?thesis by (simp add: Get_def)
qed

lemma Build_final_absent:
  assumes "Build fuel c t cfg = Some (Returned lx err)" and "build c t cfg = Inr T"
    and "Get T n = None"
  shows "Get (lexer_rules lx) n = None"
proof -
  from Build_Returned_D[OF assms(1)] assms(2)
  have r: "resolveStates fuel T [] T = Some (Inr (lexer_rules lx))" by auto
  from resolveStates_lookup[OF r build_distinct[OF assms(2)], of n] assms(3)
  show ?thesis by (simp add: Get_def)
qed


section \<open>Declared states in the built table; includes expanded\<close>



lemma addStates_keys:
  "addStates c t tbl sts = Inr T \<Longrightarrow> fst ` set T = fst ` set tbl \<union> Name ` set sts"
  by (induction sts arbitrary: tbl) (auto simp: AddState_def dom_update split: sum.splits)

lemma createCombinedStateInRule_extends:
  "createCombinedStateInRule tbl sn cr = Inr T \<Longrightarrow> map_of tbl n = Some st \<Longrightarrow> map_of T n = Some st"
  by (auto simp: createCombinedStateInRule_def Contains_def AddState_def update_conv'
      split: option.splits if_splits sum.splits)

lemma createCombinedStatesLoop_extends:
  "createCombinedStatesLoop tbl sn crs = Inr T \<Longrightarrow> map_of tbl n = Some st \<Longrightarrow> map_of T n = Some st"
  by (induction crs arbitrary: tbl)
     (auto split: sum.splits dest: createCombinedStateInRule_extends)

lemma combineStates_extends:
  "combineStates tbl sts = Inr T \<Longrightarrow> map_of tbl n = Some st \<Longrightarrow> map_of T n = Some st"
  by (induction sts arbitrary: tbl)
     (auto simp: createCombinedStates_def split: sum.splits dest: createCombinedStatesLoop_extends)


lemma Build_build:
  "Build fuel c t cfg = Some (Returned lx err) \<Longrightarrow> \<exists>T. build c t cfg = Inr T"
  by (auto dest: Build_Returned_D)


section \<open>When the include resolution ends\<close>

lemma resolveIncludesIn_error_missing:
  "resolveIncludesIn fuel tbl acc rs = Some (Inl e) \<Longrightarrow> \<exists>s. e = NoSuchInclude s \<and> Get tbl s = None"
  by (induction fuel tbl acc rs rule: resolveIncludesIn.induct)
     (auto split: if_splits option.splits nat.splits sum.splits)

lemma resolveStates_error_missing:
  "resolveStates fuel tbl new es = Some (Inl e) \<Longrightarrow> \<exists>s. e = NoSuchInclude s \<and> Get tbl s = None"
  by (induction es arbitrary: new)
     (auto split: option.splits sum.splits dest: resolveIncludesIn_error_missing)

lemma Build_dangling_include_missing:
  assumes "build c t cfg = Inr T" and "danglingInclude T"
  shows "Build fuel c t cfg = None \<or>
         (\<exists>s. Build fuel c t cfg = Some (Panicked (NoSuchInclude s)) \<and> Get T s = None)"
proof -
  from assms(2) obtain n st r where h: "(n, st) \<in> set T" "r \<in> set (rules st)"
    "rinclude r \<noteq> ''''" "Get T (rinclude r) = None"
    by (auto simp: danglingInclude_def rulesIn_def)
  show ?thesis
  proof (cases "resolveStates fuel T [] T")
    case None
    with assms(1) show ?thesis by (simp add: Build_def Let_def resolveIncludes_def)
  next
    case (Some x)
    show ?thesis
    proof (cases x)
      case (Inl e)
      with Some resolveStates_error_missing obtain s where "e = NoSuchInclude s" "Get T s = None"
        by blast
      with Some Inl assms(1) show ?thesis by (simp add: Build_def Let_def resolveIncludes_def)
    next
      case (Inr out)
      with Some resolveStates_dangling[OF h, of fuel "[]" out] show ?thesis by simp
    qed
  qed
qed

lemma resolveIncludesIn_ranked:
  assumes wr: "wellRanked T rank"
  shows "(\<forall>r\<in>set rs. rinclude r \<noteq> '''' \<longrightarrow> Get T (rinclude r) \<noteq> None \<longrightarrow> rank (rinclude r) < k)
     \<Longrightarrow> resolveIncludesIn k T acc rs \<noteq> None"
proof (induction k arbitrary: rs acc rule: less_induct)
  case (less k)
  from less.prems show ?case
  proof (induction rs arbitrary: acc)
    case Nil
    then show ?case by simp
  next
    case (Cons rl rest)
    from Cons.prems have restOK:
      "\<forall>r\<in>set rest. rinclude r \<noteq> '''' \<longrightarrow> Get T (rinclude r) \<noteq> None \<longrightarrow> rank (rinclude r) < k"
      by simp
    note IHrest = Cons.IH[OF restOK]
    show ?case
    proof (cases "rinclude rl \<noteq> ''''")
      case False
      with IHrest[of "acc @ [rl]"] show ?thesis by simp
    next
      case True
      show ?thesis
      proof (cases "Get T (rinclude rl)")
        case None
        with True show ?thesis by simp
      next
        case (Some st)
        with True Cons.prems have lt: "rank (rinclude rl) < k" by simp
        then obtain k' where k: "k = Suc k'" by (cases k) auto
        from Some have mem: "(rinclude rl, st) \<in> set T" by (auto simp: Get_def dest: map_of_SomeD)
        have "\<forall>r\<in>set (rules st). rinclude r \<noteq> '''' \<longrightarrow> Get T (rinclude r) \<noteq> None \<longrightarrow>
                rank (rinclude r) < k'"
        proof (intro ballI impI)
          fix r assume "r \<in> set (rules st)" "rinclude r \<noteq> ''''" "Get T (rinclude r) \<noteq> None"
          with wr mem have "rank (rinclude r) < rank (rinclude rl)"
            by (fastforce simp: wellRanked_def)
          with lt k show "rank (rinclude r) < k'" by simp
        qed
        from less.IH[of k' "rules st" "[]", OF _ this] k
        have n: "resolveIncludesIn k' T [] (rules st) \<noteq> None" by simp
        then obtain y where y: "resolveIncludesIn k' T [] (rules st) = Some y" by auto
        show ?thesis
        proof (cases y)
          case (Inl e)
          with True Some k y show ?thesis by simp
        next
          case (Inr resolved)
          with True Some k y IHrest[of "acc @ resolved"] show ?thesis by simp
        qed
      qed
    qed
  qed
qed

lemma resolveStates_ends:
  "(\<forall>(n, st)\<in>set es. resolveIncludesIn k T [] (rules st) \<noteq> None) \<Longrightarrow>
     resolveStates k T new es \<noteq> None"
proof (induction es arbitrary: new)
  case Nil
  then show ?case by simp
next
  case (Cons e es)
  obtain nm s where e: "e = (nm, s)" by (cases e)
  with Cons.prems obtain y where y: "resolveIncludesIn k T [] (rules s) = Some y" by auto
  from Cons.prems have "\<forall>(n, st)\<in>set es. resolveIncludesIn k T [] (rules st) \<noteq> None" by simp
  note IH = Cons.IH[OF this]
  show ?case
  proof (cases y)
    case (Inl err)
    with e y show ?thesis by simp
  next
    case (Inr list)
    with e y IH[of "AList.update nm (s\<lparr>rules := list\<rparr>) new"] show ?thesis by simp
  qed
qed

lemma Build_ends_ranked:
  assumes T: "build c t cfg = Inr T" and wr: "wellRanked T rank"
  shows "Build (Suc (sum_list (map (rank \<circ> fst) T))) c t cfg \<noteq> None"
proof -
  let ?k = "Suc (sum_list (map (rank \<circ> fst) T))"
  have each: "resolveIncludesIn ?k T [] (rules st) \<noteq> None" if mem: "(n, st) \<in> set T" for n st
  proof -
    from mem have "rank n \<le> sum_list (map (rank \<circ> fst) T)"
      using member_le_sum_list[of "rank n" "map (rank \<circ> fst) T"] by force
    then have le: "rank n < ?k" by simp
    have "\<forall>r\<in>set (rules st). rinclude r \<noteq> '''' \<longrightarrow> Get T (rinclude r) \<noteq> None \<longrightarrow>
            rank (rinclude r) < ?k"
    proof (intro ballI impI)
      fix r assume "r \<in> set (rules st)" "rinclude r \<noteq> ''''" "Get T (rinclude r) \<noteq> None"
      with wr mem have "rank (rinclude r) < rank n" by (fastforce simp: wellRanked_def)
      with le show "rank (rinclude r) < ?k" by simp
    qed
    from resolveIncludesIn_ranked[OF wr this] show ?thesis .
  qed
  then have "\<forall>(n, st)\<in>set T. resolveIncludesIn ?k T [] (rules st) \<noteq> None" by blast
  from resolveStates_ends[OF this, of "[]"] T show ?thesis
    by (auto simp: Build_def Let_def resolveIncludes_def split: option.splits sum.splits)
qed

lemma resolveStates_mono:
  "resolveStates f tbl new es = Some x \<Longrightarrow> f \<le> f' \<Longrightarrow> resolveStates f' tbl new es = Some x"
proof (induction es arbitrary: new)
  case Nil
  then show ?case by simp
next
  case (Cons e es)
  obtain nm s where e: "e = (nm, s)" by (cases e)
  with Cons.prems(1) obtain y where y: "resolveIncludesIn f tbl [] (rules s) = Some y"
    by (auto split: option.splits)
  from resolveIncludesIn_mono[OF y Cons.prems(2)]
  have y': "resolveIncludesIn f' tbl [] (rules s) = Some y" .
  show ?case
  proof (cases y)
    case (Inl err)
    with e y y' Cons.prems(1) show ?thesis by simp
  next
    case (Inr list)
    with e y Cons.prems(1)
    have "resolveStates f tbl (AList.update nm (s\<lparr>rules := list\<rparr>) new) es = Some x" by simp
    from Cons.IH[OF this Cons.prems(2)] e y' Inr show ?thesis by simp
  qed
qed

lemma Build_mono:
  assumes "Build f c t cfg = Some out" and "f \<le> f'"
  shows "Build f' c t cfg = Some out"
proof (cases "build c t cfg")
  case (Inl e)
  with assms(1) show ?thesis by (simp add: Build_def Let_def)
next
  case (Inr T)
  with assms(1) obtain x where x: "resolveStates f T [] T = Some x"
    by (auto simp: Build_def Let_def resolveIncludes_def split: option.splits)
  from resolveStates_mono[OF x assms(2)] x Inr assms(1) show ?thesis
    by (simp add: Build_def Let_def resolveIncludes_def)
qed

lemma cfgSelfInclude_diverges: "Build fuel Some t cfgSelfInclude = None"
proof -
  let ?r = "\<lparr>pattern = \<lparr>re = anchored '''', MatchTimeout = Millisecond * 250\<rparr>, tok = 0, popDepth = 0,
      pushState = '''', rinclude = ''root'', byGroups = [], useSelfState = ''''\<rparr>"
  let ?T = "[(''root'', \<lparr>name = ''root'', rules = [?r]\<rparr>)]"
  have b: "build Some t cfgSelfInclude = Inr ?T"
    by (simp add: cfgSelfInclude_def includeRule_def plainRule_def build_defs)
  have "resolveIncludesIn f ?T acc [?r] = None" for f acc
    by (induction f arbitrary: acc) (simp_all add: Get_def)
  then have "resolveStates fuel ?T [] ?T = None" by simp
  with b show ?thesis by (simp add: Build_def Let_def resolveIncludes_def)
qed

section \<open>The second pass of build: combined states\<close>

lemma appendSubstates_eq:
  "appendSubstates tbl sn acc c = Inr rs \<Longrightarrow>
     (\<forall>m\<in>set c. map_of tbl m \<noteq> None) \<and> rs = acc @ concat (map (stateRules tbl) c)"
proof (induction c arbitrary: acc)
  case Nil
  then show ?case by simp
next
  case (Cons m c)
  from Cons.prems obtain st where st: "Get tbl m = Some st"
    and rest: "appendSubstates tbl sn (acc @ rules st) c = Inr rs"
    by (auto split: option.splits)
  from Cons.IH[OF rest] st show ?case by (simp add: stateRules_def Get_def)
qed

lemma stateRules_AddState_other:
  "m \<noteq> name s \<Longrightarrow> stateRules (AddState tbl s) m = stateRules tbl m"
  by (simp add: stateRules_def Get_def AddState_def update_conv')

lemma combInv_AddState:
  assumes inv: "combInv K D tbl" and new: "map_of tbl (combinedStateName c) = None"
    and cD: "c \<in> D" and mem: "\<forall>m\<in>set c. map_of tbl m \<noteq> None"
  shows "combInv K D (AddState tbl \<lparr>name = combinedStateName c,
            rules = concat (map (stateRules tbl) c)\<rparr>)"
proof -
  let ?N = "combinedStateName c"
  let ?s = "\<lparr>name = ?N, rules = concat (map (stateRules tbl) c)\<rparr>"
  let ?T = "AddState tbl ?s"
  have look: "map_of ?T n = (if n = ?N then Some ?s else map_of tbl n)" for n
    by (simp add: AddState_def update_conv')
  have same: "concat (map (stateRules ?T) c') = concat (map (stateRules tbl) c')"
    if "\<forall>m\<in>set c'. map_of tbl m \<noteq> None" for c'
  proof -
    from that new have "\<forall>m\<in>set c'. m \<noteq> ?N" by auto
    then have "map (stateRules ?T) c' = map (stateRules tbl) c'"
      by (auto simp: stateRules_AddState_other)
    then show ?thesis by (rule arg_cong)
  qed
  have kept: "\<forall>m\<in>set c'. map_of ?T m \<noteq> None" if "\<forall>m\<in>set c'. map_of tbl m \<noteq> None" for c'
    using that by (auto simp: look)
  show ?thesis
    unfolding combInv_def
  proof (intro allI impI)
    fix n st assume a: "map_of ?T n = Some st"
    show "n \<in> K \<or> (\<exists>c\<in>D. combinedStateName c = n \<and> (\<forall>m\<in>set c. map_of ?T m \<noteq> None) \<and>
           rules st = concat (map (stateRules ?T) c))"
    proof (cases "n = ?N")
      case True
      with a have "st = ?s" by (simp add: look)
      with True cD kept[OF mem] same[OF mem] show ?thesis by auto
    next
      case False
      with a have "map_of tbl n = Some st" by (simp add: look)
      with inv consider "n \<in> K"
        | c' where "c' \<in> D" "combinedStateName c' = n" "\<forall>m\<in>set c'. map_of tbl m \<noteq> None"
            "rules st = concat (map (stateRules tbl) c')"
        unfolding combInv_def by blast
      then show ?thesis
      proof cases
        case 1
        then show ?thesis by simp
      next
        case 2
        with kept[OF 2(3)] same[OF 2(3)] show ?thesis by auto
      qed
    qed
  qed
qed

lemma createCombinedStateInRule_inv:
  assumes "createCombinedStateInRule tbl sn cr = Inr T" and "combInv K D tbl"
    and "\<forall>c. Combined cr = Some c \<longrightarrow> c \<in> D"
  shows "combInv K D T \<and> (\<forall>c. Combined cr = Some c \<longrightarrow> map_of T (combinedStateName c) \<noteq> None)"
proof (cases "Combined cr")
  case None
  with assms show ?thesis by (simp add: createCombinedStateInRule_def)
next
  case (Some c)
  show ?thesis
  proof (cases "Contains tbl (combinedStateName c)")
    case True
    with Some assms show ?thesis by (simp add: createCombinedStateInRule_def Contains_def)
  next
    case False
    with Some assms(1) obtain rs where rs: "appendSubstates tbl sn [] c = Inr rs"
      and T: "T = AddState tbl \<lparr>name = combinedStateName c, rules = rs\<rparr>"
      by (auto simp: createCombinedStateInRule_def split: sum.splits)
    from appendSubstates_eq[OF rs] have mem: "\<forall>m\<in>set c. map_of tbl m \<noteq> None"
      and rseq: "rs = concat (map (stateRules tbl) c)" by auto
    from False have new: "map_of tbl (combinedStateName c) = None" by (simp add: Contains_def)
    from Some assms(3) have cD: "c \<in> D" by simp
    from combInv_AddState[OF assms(2) new cD mem] T rseq have "combInv K D T" by simp
    moreover from T have "map_of T (combinedStateName c) \<noteq> None"
      by (simp add: AddState_def update_conv')
    ultimately show ?thesis using Some by simp
  qed
qed

lemma createCombinedStatesLoop_inv:
  "createCombinedStatesLoop tbl sn crs = Inr T \<Longrightarrow> combInv K D tbl \<Longrightarrow>
     (\<forall>cr\<in>set crs. \<forall>c. Combined cr = Some c \<longrightarrow> c \<in> D) \<Longrightarrow>
     combInv K D T \<and>
     (\<forall>cr\<in>set crs. \<forall>c. Combined cr = Some c \<longrightarrow> map_of T (combinedStateName c) \<noteq> None)"
proof (induction crs arbitrary: tbl)
  case Nil
  then show ?case by simp
next
  case (Cons cr crs)
  from Cons.prems(1) obtain tbl' where 1: "createCombinedStateInRule tbl sn cr = Inr tbl'"
    and 2: "createCombinedStatesLoop tbl' sn crs = Inr T"
    by (auto split: sum.splits)
  from Cons.prems(3) have d1: "\<forall>c. Combined cr = Some c \<longrightarrow> c \<in> D"
    and d2: "\<forall>cr\<in>set crs. \<forall>c. Combined cr = Some c \<longrightarrow> c \<in> D" by auto
  from createCombinedStateInRule_inv[OF 1 Cons.prems(2) d1]
  have i1: "combInv K D tbl'"
    and p1: "\<forall>c. Combined cr = Some c \<longrightarrow> map_of tbl' (combinedStateName c) \<noteq> None" by auto
  from Cons.IH[OF 2 i1 d2] have i2: "combInv K D T"
    and p2: "\<forall>cr\<in>set crs. \<forall>c. Combined cr = Some c \<longrightarrow> map_of T (combinedStateName c) \<noteq> None"
    by auto
  from p1 createCombinedStatesLoop_extends[OF 2]
  have "\<forall>c. Combined cr = Some c \<longrightarrow> map_of T (combinedStateName c) \<noteq> None" by fastforce
  with i2 p2 show ?case by simp
qed

lemma combineStates_inv:
  "combineStates tbl sts = Inr T \<Longrightarrow> combInv K D tbl \<Longrightarrow>
     (\<forall>cr\<in>set (concat (map Rules sts)). \<forall>c. Combined cr = Some c \<longrightarrow> c \<in> D) \<Longrightarrow>
     combInv K D T \<and>
     (\<forall>cr\<in>set (concat (map Rules sts)). \<forall>c. Combined cr = Some c \<longrightarrow>
        map_of T (combinedStateName c) \<noteq> None)"
proof (induction sts arbitrary: tbl)
  case Nil
  then show ?case by simp
next
  case (Cons s sts)
  from Cons.prems(1) obtain tbl' where 1: "createCombinedStatesLoop tbl (Name s) (Rules s) = Inr tbl'"
    and 2: "combineStates tbl' sts = Inr T"
    by (auto simp: createCombinedStates_def split: sum.splits)
  from Cons.prems(3) have d1: "\<forall>cr\<in>set (Rules s). \<forall>c. Combined cr = Some c \<longrightarrow> c \<in> D"
    and d2: "\<forall>cr\<in>set (concat (map Rules sts)). \<forall>c. Combined cr = Some c \<longrightarrow> c \<in> D" by auto
  from createCombinedStatesLoop_inv[OF 1 Cons.prems(2) d1]
  have i1: "combInv K D tbl'"
    and p1: "\<forall>cr\<in>set (Rules s). \<forall>c. Combined cr = Some c \<longrightarrow>
               map_of tbl' (combinedStateName c) \<noteq> None" by auto
  from Cons.IH[OF 2 i1 d2] have i2: "combInv K D T"
    and p2: "\<forall>cr\<in>set (concat (map Rules sts)). \<forall>c. Combined cr = Some c \<longrightarrow>
               map_of T (combinedStateName c) \<noteq> None" by auto
  from p1 combineStates_extends[OF 2]
  have "\<forall>cr\<in>set (Rules s). \<forall>c. Combined cr = Some c \<longrightarrow>
               map_of T (combinedStateName c) \<noteq> None" by fastforce
  with i2 p2 show ?case by auto
qed

lemma build_combInv:
  assumes "build c t cfg = Inr T"
  shows "combInv (Name ` set (States cfg)) {c. declaredCombination cfg c} T \<and>
         (\<forall>cr\<in>set (allRules cfg). \<forall>c. Combined cr = Some c \<longrightarrow>
            map_of T (combinedStateName c) \<noteq> None)"
proof -
  from assms obtain T0 where a: "addStates c t newRules (States cfg) = Inr T0"
    and b: "combineStates T0 (States cfg) = Inr T"
    by (auto simp: build_def split: sum.splits)
  from addStates_keys[OF a] have "fst ` set T0 = Name ` set (States cfg)"
    by (simp add: newRules_def)
  then have i0: "combInv (Name ` set (States cfg)) {c. declaredCombination cfg c} T0"
    unfolding combInv_def by (metis domI dom_map_of_conv_image_fst)
  have d: "\<forall>cr\<in>set (concat (map Rules (States cfg))). \<forall>c. Combined cr = Some c \<longrightarrow>
             c \<in> {c. declaredCombination cfg c}"
    by (auto simp: declaredCombination_def allRules_def)
  from combineStates_inv[OF b i0 d] show ?thesis by (simp add: allRules_def)
qed

section \<open>Combined states in the table that Build returns\<close>

lemma resolveIncludesIn_append:
  "resolveIncludesIn fuel tbl acc (xs @ ys) =
     (case resolveIncludesIn fuel tbl acc xs of
        None \<Rightarrow> None
      | Some (Inl e) \<Rightarrow> Some (Inl e)
      | Some (Inr a) \<Rightarrow> resolveIncludesIn fuel tbl a ys)"
proof (induction xs arbitrary: acc)
  case Nil
  then show ?case by simp
next
  case (Cons x xs)
  show ?case
  proof (cases "rinclude x \<noteq> ''''")
    case False
    with Cons.IH[of "acc @ [x]"] show ?thesis by simp
  next
    case True
    show ?thesis
    proof (cases "Get tbl (rinclude x)")
      case None
      with True show ?thesis by simp
    next
      case (Some st)
      show ?thesis
      proof (cases fuel)
        case 0
        with True Some show ?thesis by simp
      next
        case (Suc f)
        show ?thesis
        proof (cases "resolveIncludesIn f tbl [] (rules st)")
          case None
          with True Some Suc show ?thesis by simp
        next
          case (Some y)
          show ?thesis
          proof (cases y)
            case (Inl e)
            with True \<open>Get tbl (rinclude x) = Some st\<close> Suc Some show ?thesis by simp
          next
            case (Inr resolved)
            with True \<open>Get tbl (rinclude x) = Some st\<close> Suc Some Cons.IH[of "acc @ resolved"]
            show ?thesis by simp
          qed
        qed
      qed
    qed
  qed
qed

lemma resolveIncludesIn_append_Inr:
  assumes "resolveIncludesIn fuel tbl [] (xs @ ys) = Some (Inr out)"
  shows "\<exists>o1 o2. resolveIncludesIn fuel tbl [] xs = Some (Inr o1) \<and>
           resolveIncludesIn fuel tbl [] ys = Some (Inr o2) \<and> out = o1 @ o2"
proof -
  from assms obtain o1 where o1: "resolveIncludesIn fuel tbl [] xs = Some (Inr o1)"
    and r: "resolveIncludesIn fuel tbl o1 ys = Some (Inr out)"
    by (auto simp: resolveIncludesIn_append split: option.splits sum.splits)
  from r resolveIncludesIn_acc[of fuel tbl o1 ys]
  obtain o2 where "resolveIncludesIn fuel tbl [] ys = Some (Inr o2)" "out = o1 @ o2"
    by (cases "resolveIncludesIn fuel tbl [] ys") (auto simp: map_sum_def split: sum.splits)
  with o1 show ?thesis by blast
qed

lemma resolveIncludesIn_concat:
  assumes each: "\<And>m st o1. Get tbl m = Some st \<Longrightarrow>
            resolveIncludesIn fuel tbl [] (rules st) = Some (Inr o1) \<Longrightarrow> o1 = R m"
  shows "resolveIncludesIn fuel tbl [] (concat (map (stateRules tbl) c)) = Some (Inr out) \<Longrightarrow>
           \<forall>m\<in>set c. Get tbl m \<noteq> None \<Longrightarrow> out = concat (map R c)"
proof (induction c arbitrary: out)
  case Nil
  then show ?case by simp
next
  case (Cons m c)
  from Cons.prems(2) obtain st where st: "Get tbl m = Some st" by auto
  then have sr: "stateRules tbl m = rules st" by (simp add: stateRules_def)
  from Cons.prems(1) sr
  have "resolveIncludesIn fuel tbl [] (rules st @ concat (map (stateRules tbl) c)) = Some (Inr out)"
    by simp
  from resolveIncludesIn_append_Inr[OF this] obtain o1 o2 where
    o1: "resolveIncludesIn fuel tbl [] (rules st) = Some (Inr o1)"
    and o2: "resolveIncludesIn fuel tbl [] (concat (map (stateRules tbl) c)) = Some (Inr o2)"
    and out: "out = o1 @ o2" by blast
  from Cons.prems(2) have "\<forall>m\<in>set c. Get tbl m \<noteq> None" by simp
  from Cons.IH[OF o2 this] each[OF st o1] out show ?case by simp
qed

lemma setRuleFieldsFrom_pushState:
  "setRuleFieldsFrom t r cr = Inr r' \<Longrightarrow> Push cr = None \<Longrightarrow> pushState r' = pushState r"
  by (auto simp: setRuleFieldsFrom_def Let_def split: option.splits sum.splits)

lemma buildRule_combined_push:
  assumes "buildRule c t cr = Inr r" and "Combined cr = Some cs"
  shows "pushState r = combinedStateName cs"
proof -
  from assms(1) have ck: "checkRule cr = None"
    by (auto simp: buildRule_def split: option.splits)
  with assms(2) have np: "Push cr = None"
    by (auto simp: checkRule_def split: if_splits)
  from assms(1) ck obtain r0 where r0: "makeRule c (Pattern cr) = Inr r0"
    and s: "setRuleFieldsFrom t (updatePushForCombinedState r0 cr) cr = Inr r"
    by (auto simp: buildRule_def split: sum.splits)
  from setRuleFieldsFrom_pushState[OF s np] assms(2) show ?thesis
    by (simp add: updatePushForCombinedState_def)
qed

lemma Build_combined_state:
  assumes B: "Build fuel c t cfg = Some (Returned lx err)"
    and cr: "cr \<in> set (allRules cfg)" and cs: "Combined cr = Some cs"
  shows "\<exists>st. Get (lexer_rules lx) (combinedStateName cs) = Some st \<and>
           (combinedStateName cs \<notin> Name ` set (States cfg) \<longrightarrow>
              (\<exists>cs'. declaredCombination cfg cs' \<and> combinedStateName cs' = combinedStateName cs \<and>
                 rules st = concat (map (stateRules (lexer_rules lx)) cs')))"
proof -
  let ?F = "lexer_rules lx"
  let ?N = "combinedStateName cs"
  from Build_build[OF B] obtain T where T: "build c t cfg = Inr T" by blast
  from build_combInv[OF T] cr cs have inv: "combInv (Name ` set (States cfg)) {c. declaredCombination cfg c} T"
    and pres: "map_of T ?N \<noteq> None" by auto
  from pres obtain st0 where st0: "Get T ?N = Some st0" by (auto simp: Get_def)
  from Build_final_entry[OF B T st0] obtain out where
    out: "resolveIncludesIn fuel T [] (rules st0) = Some (Inr out)"
    and F: "Get ?F ?N = Some (st0\<lparr>rules := out\<rparr>)" by blast
  have each: "o1 = stateRules ?F m"
    if "Get T m = Some s" and "resolveIncludesIn fuel T [] (rules s) = Some (Inr o1)" for m s o1
  proof -
    from Build_final_entry[OF B T that(1)] that(2) show ?thesis
      by (auto simp: stateRules_def)
  qed
  have "\<exists>cs'. declaredCombination cfg cs' \<and> combinedStateName cs' = ?N \<and>
           out = concat (map (stateRules ?F) cs')" if notdecl: "?N \<notin> Name ` set (States cfg)"
  proof -
    from inv st0 notdecl obtain cs' where cs': "declaredCombination cfg cs'"
      "combinedStateName cs' = ?N" "\<forall>m\<in>set cs'. map_of T m \<noteq> None"
      "rules st0 = concat (map (stateRules T) cs')"
      unfolding combInv_def Get_def by blast
    from out cs'(4) have r: "resolveIncludesIn fuel T [] (concat (map (stateRules T) cs')) = Some (Inr out)"
      by simp
    from cs'(3) have m: "\<forall>m\<in>set cs'. Get T m \<noteq> None" by (simp add: Get_def)
    have "out = concat (map (stateRules ?F) cs')"
    proof (rule resolveIncludesIn_concat[where tbl = T and fuel = fuel, OF _ r m])
      fix m st o1
      assume "Get T m = Some st" "resolveIncludesIn fuel T [] (rules st) = Some (Inr o1)"
      then show "o1 = stateRules ?F m" by (rule each)
    qed
    with cs'(1,2) show ?thesis by blast
  qed
  with F show ?thesis by auto
qed

section \<open>Sessions of the tokenizer\<close>













section \<open>The error of a stopped include resolution\<close>

lemma resolveIncludesIn_error_rule:
  "resolveIncludesIn fuel tbl acc rs = Some (Inl e) \<Longrightarrow>
     \<exists>r\<in>set rs \<union> rulesIn tbl.
        rinclude r \<noteq> '''' \<and> Get tbl (rinclude r) = None \<and> e = NoSuchInclude (rinclude r)"
proof (induction fuel tbl acc rs rule: resolveIncludesIn.induct)
  case (1 fuel tbl acc)
  then show ?case by simp
next
  case (2 fuel tbl acc rl rest)
  show ?case
  proof (cases "rinclude rl \<noteq> ''''")
    case False
    with "2.prems" have "resolveIncludesIn fuel tbl (acc @ [rl]) rest = Some (Inl e)" by simp
    from "2.IH"(3)[OF False this] show ?thesis by auto
  next
    case True
    show ?thesis
    proof (cases "Get tbl (rinclude rl)")
      case None
      with True "2.prems" have "e = NoSuchInclude (rinclude rl)" by simp
      with True None show ?thesis by auto
    next
      case (Some st)
      with True "2.prems" obtain fuel' y where f: "fuel = Suc fuel'"
        and r1: "resolveIncludesIn fuel' tbl [] (rules st) = Some y"
        by (auto split: nat.splits option.splits)
      show ?thesis
      proof (cases y)
        case (Inl e')
        with True Some f r1 "2.prems" have "e' = e" by simp
        with Inl r1 have "resolveIncludesIn fuel' tbl [] (rules st) = Some (Inl e)" by simp
        from "2.IH"(1)[OF True Some f this] Get_rulesIn[OF Some] show ?thesis by auto
      next
        case (Inr resolved)
        with True Some f r1 "2.prems"
        have r2: "resolveIncludesIn fuel tbl (acc @ resolved) rest = Some (Inl e)" by simp
        from r1 Inr have r1': "resolveIncludesIn fuel' tbl [] (rules st) = Some (Inr resolved)" by simp
        from "2.IH"(2)[OF True Some f r1 Inr r2] show ?thesis by auto
      qed
    qed
  qed
qed

lemma resolveStates_error_rule:
  "resolveStates fuel tbl new es = Some (Inl e) \<Longrightarrow> set es \<subseteq> set tbl \<Longrightarrow>
     \<exists>r\<in>rulesIn tbl.
        rinclude r \<noteq> '''' \<and> Get tbl (rinclude r) = None \<and> e = NoSuchInclude (rinclude r)"
proof (induction es arbitrary: new)
  case Nil
  then show ?case by simp
next
  case (Cons x es)
  obtain nm st where x: "x = (nm, st)" by (cases x)
  from Cons.prems(2) x have sub: "set (rules st) \<subseteq> rulesIn tbl" by (auto simp: rulesIn_def)
  from Cons.prems(2) have es: "set es \<subseteq> set tbl" by simp
  show ?case
  proof (cases "resolveIncludesIn fuel tbl [] (rules st)")
    case None
    with Cons.prems(1) x show ?thesis by simp
  next
    case (Some y)
    show ?thesis
    proof (cases y)
      case (Inl e')
      with Some Cons.prems(1) x have "e' = e" by simp
      with Some Inl resolveIncludesIn_error_rule[of fuel tbl "[]" "rules st" e] sub
      show ?thesis by auto
    next
      case (Inr list)
      with Some Cons.prems(1) x
      have "resolveStates fuel tbl (AList.update nm (st\<lparr>rules := list\<rparr>) new) es = Some (Inl e)"
        by simp
      from Cons.IH[OF this es] show ?thesis .
    qed
  qed
qed

lemma Build_error_rule:
  assumes "build c t cfg = Inr T" and "Build fuel c t cfg = Some (Panicked e)"
  shows "\<exists>r\<in>rulesIn T.
           rinclude r \<noteq> '''' \<and> Get T (rinclude r) = None \<and> e = NoSuchInclude (rinclude r)"
proof -
  from assms have "resolveStates fuel T [] T = Some (Inl e)"
    by (auto simp: Build_def Let_def resolveIncludes_def split: option.splits sum.splits)
  from resolveStates_error_rule[OF this] show ?thesis by simp
qed

section \<open>Build and the root state\<close>

text \<open>
  C1.  The claim: for a configuration with no state named \<open>root\<close>, Build returns an
  error and yields no usable table.  \<open>validate\<close> does compute the error, but \<open>Build\<close>
  hands it to \<^verbatim>\<open>mylog.CheckIgnore\<close> and goes on: for the configuration \<open>cfgNoRoot\<close> it
  returns a table and a nil error.
\<close>

theorem Build_ignores_missing_root:
  "validate cfgNoRoot = Some NoRootState \<and>
   Build fuel compile tts cfgNoRoot =
     Some (Returned \<lparr>config = cfgNoRoot,
                     lexer_rules = [(''main'', \<lparr>name = ''main'', rules = []\<rparr>)]\<rparr> None) \<and>
   \<not> failed (Build fuel compile tts cfgNoRoot)"
  by (simp add: cfgNoRoot_def validate_def build_defs failed_def)

section \<open>Lookup by file name\<close>

lemma matchLoop_keeps_matched: "matchLoop gm f acc ls = Inr m \<Longrightarrow> m = acc"
  by (induction ls) (auto split: sum.splits)

lemma Match_never_finds: "Match gm base l filename \<noteq> Inr (Some lx)"
  by (auto simp: Match_def Let_def split: sum.splits dest: matchLoop_keeps_matched)

text \<open>
  C9.  The claim: when a registered lexer declares a glob that matches the base name,
  \<open>Match\<close> returns a matching lexer of maximal priority.  The loop of \<open>Match\<close> drops the
  result of the glob test, so \<open>matched\<close> stays empty: with the Go lexer registered under
  \<open>*.go\<close> and a glob test that accepts, \<open>Match\<close> of \<open>a.go\<close> is nil.
\<close>

theorem Match_drops_matching_lexer:
  "Match (\<lambda>glob f. Some True) (\<lambda>f. f) goRegistry ''a.go'' = Inr None"
  by (simp add: Match_def goRegistry_def goLexer_def)

section \<open>Names of combined states\<close>

text \<open>
  C10.  The name of a combined state is \<open>__combined_\<close> followed by the substate names
  joined with \<open>__\<close>.  The distinct lists \<open>[a__b]\<close> and \<open>[a, b]\<close> get the same name, and in
  the table built from \<open>cfgAB\<close> both rules of \<open>root\<close> push that one state, which holds the
  rule of \<open>a__b\<close>, the combination declared first.
\<close>

theorem combinedStateName_collision:
  "combinedStateName c = ''__combined_'' @ Join c ''__'' \<and>
   [''a__b''] \<noteq> [''a'', ''b''] \<and>
   combinedStateName [''a__b''] = combinedStateName [''a'', ''b''] \<and>
   (case Build fuel Some tts cfgAB of
      Some (Returned lx None) \<Rightarrow>
        map_option (map (re \<circ> pattern) \<circ> rules)
          (Get (lexer_rules lx) (combinedStateName [''a'', ''b''])) = Some [anchored ''3''] \<and>
        map_option (map pushState \<circ> rules) (Get (lexer_rules lx) ''root'') =
          Some [combinedStateName [''a__b''], combinedStateName [''a'', ''b'']]
    | _ \<Rightarrow> False)"
  by (simp add: cfgAB_def plainRule_def build_defs combinedStateName_def)

section \<open>Conflicting rule actions\<close>

text \<open>
  C7, as claimed: Build fails with a ConflictingRuleAction error exactly when some rule
  combines incompatible action categories or has neither a pattern nor any directive.
  The rule of \<open>cfgBare\<close> has a directive (a combination) and no incompatible pair, yet
  \<open>checkRule\<close> refuses it: its first test asks only for a pattern, a push, a pop or an
  include.
\<close>

theorem Build_conflict_counterexample:
  "Build 0 (Some :: string \<Rightarrow> string option) (\<lambda>ty. None) cfgBare = Some (Panicked NoPatternNoDirective) \<and>
   isConflictingRuleAction NoPatternNoDirective \<and>
   \<not> list_ex (\<lambda>r. incompatibleActions r \<or> noPatternNoDirective r) (allRules cfgBare)"
  by (simp add: cfgBare_def plainRule_def build_defs allRules_def incompatibleActions_def
      noPatternNoDirective_def)

text \<open>
  C7, amended: \<open>checkRule\<close> refuses a rule exactly when it combines incompatible action
  categories or has an empty pattern and none of push, pop and include; and Build fails
  with a ConflictingRuleAction error exactly when the first rule, in declaration order,
  that cannot be built is one that \<open>checkRule\<close> refuses.
\<close>

theorem Build_conflict_iff:
  "(checkRule r \<noteq> None \<longleftrightarrow> noPatternNoTransition r \<or> incompatibleActions r) \<and>
   ((\<exists>e. Build fuel c t cfg = Some (Panicked e) \<and> isConflictingRuleAction e) \<longleftrightarrow>
    (\<exists>pre cr post. allRules cfg = pre @ cr # post \<and> (\<forall>x\<in>set pre. builds c t x) \<and>
       (noPatternNoTransition cr \<or> incompatibleActions cr)))"
proof (intro conjI iffI)
  assume "checkRule r \<noteq> None"
  then show "noPatternNoTransition r \<or> incompatibleActions r"
    using checkRule_rejects by blast
next
  assume "noPatternNoTransition r \<or> incompatibleActions r"
  then show "checkRule r \<noteq> None"
    using checkRule_rejects by blast
next
  assume "\<exists>e. Build fuel c t cfg = Some (Panicked e) \<and> isConflictingRuleAction e"
  then obtain e where e: "Build fuel c t cfg = Some (Panicked e)" "isConflictingRuleAction e"
    by blast
  from Build_Panicked_cases[OF e(1)] e(2) have "ruleSequence c t (allRules cfg) = Inl e"
    by auto
  then obtain pre cr post where h: "allRules cfg = pre @ cr # post"
      "\<forall>x\<in>set pre. builds c t x" "buildRule c t cr = Inl e"
    using ruleSequence_first_failure by blast
  from h(3) e(2) have "checkRule cr \<noteq> None"
    using buildRule_conflict_iff by blast
  then have "noPatternNoTransition cr \<or> incompatibleActions cr"
    using checkRule_rejects by blast
  with h show "\<exists>pre cr post. allRules cfg = pre @ cr # post \<and> (\<forall>x\<in>set pre. builds c t x) \<and>
       (noPatternNoTransition cr \<or> incompatibleActions cr)"
    by blast
next
  assume "\<exists>pre cr post. allRules cfg = pre @ cr # post \<and> (\<forall>x\<in>set pre. builds c t x) \<and>
       (noPatternNoTransition cr \<or> incompatibleActions cr)"
  then obtain pre cr post where h: "allRules cfg = pre @ cr # post"
      "\<forall>x\<in>set pre. builds c t x" "noPatternNoTransition cr \<or> incompatibleActions cr"
    by blast
  from h(3) have "checkRule cr \<noteq> None"
    using checkRule_rejects by blast
  then obtain e where e: "buildRule c t cr = Inl e" "isConflictingRuleAction e"
    using buildRule_conflict_iff by blast
  from h(2) e(1) have "ruleSequence c t (pre @ cr # post) = Inl e"
    by (rule ruleSequence_fails_at)
  with h(1) have "Build fuel c t cfg = Some (Panicked e)"
    by (simp add: Build_phase1_failure)
  with e(2) show "\<exists>e. Build fuel c t cfg = Some (Panicked e) \<and> isConflictingRuleAction e"
    by blast
qed

theorem Build_conflict_iff_witness:
  "checkRule ((plainRule ''b'')\<lparr>Push := Some ''root'', Pop := Some 1\<rparr>) \<noteq> None \<and>
   (\<exists>e. Build 0 (Some :: string \<Rightarrow> string option) (\<lambda>ty. None) cfgPushPop = Some (Panicked e) \<and>
        isConflictingRuleAction e)"
proof -
  let ?bad = "(plainRule ''b'')\<lparr>Push := Some ''root'', Pop := Some 1\<rparr>"
  let ?c = "Some :: string \<Rightarrow> string option"
  let ?t = "\<lambda>ty :: string. None :: TokenType option"
  have inc: "noPatternNoTransition ?bad \<or> incompatibleActions ?bad"
    by (simp add: incompatibleActions_def plainRule_def)
  have "allRules cfgPushPop = [plainRule ''a''] @ ?bad # [] \<and>
        (\<forall>x\<in>set [plainRule ''a'']. builds ?c ?t x) \<and>
        (noPatternNoTransition ?bad \<or> incompatibleActions ?bad)"
    by (simp add: allRules_def cfgPushPop_def builds_def plainRule_def buildRule_def checkRule_def
        makeRule_def setRuleFieldsFrom_def updatePushForCombinedState_def incompatibleActions_def)
  then have ex: "\<exists>pre cr post. allRules cfgPushPop = pre @ cr # post \<and>
        (\<forall>x\<in>set pre. builds ?c ?t x) \<and> (noPatternNoTransition cr \<or> incompatibleActions cr)"
    by blast
  from Build_conflict_iff[where r = ?bad and fuel = 0 and c = ?c and t = ?t and cfg = cfgPushPop] inc ex show ?thesis
    by blast
qed

section \<open>Pattern compilation\<close>

text \<open>
  C8, as claimed: the builder compiles the pattern of every rule, anchored, with a match
  timeout of 250 milliseconds, and a pattern that fails to compile makes Build fail with
  an InvalidPattern error.  The pattern of the rule of \<open>cfgBadBoth\<close> does not compile,
  but \<open>checkRule\<close> runs before \<open>makeRule\<close> and the rule has both a push and a pop:
  Build stops with that error, and the pattern is never compiled.
\<close>

theorem Build_invalid_pattern_counterexample:
  "compileStrict (anchored (Pattern ((plainRule ''('')\<lparr>Push := Some ''root'', Pop := Some 1\<rparr>))) = None \<and>
   Build 0 compileStrict (\<lambda>ty. None) cfgBadBoth = Some (Panicked PushAndPop) \<and>
   \<not> isInvalidPattern PushAndPop"
  by (simp add: cfgBadBoth_def plainRule_def build_defs compileStrict_def)

text \<open>
  C8, amended: every rule is made by \<open>makeRule\<close>, which compiles the string \<^verbatim>\<open>\A\<close>
  followed by the declared pattern, as it stands and without a group around it, and
  sets the match timeout of the compiled pattern to 250 milliseconds; in a table that
  Build returns every rule carries such a pattern, compiled from the pattern of a rule of
  the configuration, and every pattern of the configuration compiled.  A pattern that
  does not compile makes Build fail with the error of the first rule, in declaration
  order, that cannot be built, which is that rule or one before it: the error is
  InvalidPattern when the rules before it can be built and its own check passes, and
  otherwise the error of a check, of another pattern or of a token type.
\<close>

theorem Build_compiles_anchored_patterns:
  "(Build fuel c t cfg = Some (Returned lx err) \<longrightarrow>
      (\<forall>cr\<in>set (allRules cfg). c (anchored (Pattern cr)) \<noteq> None) \<and>
      (\<forall>r\<in>rulesIn (lexer_rules lx).
          MatchTimeout (pattern r) = 250 * Millisecond \<and>
          (\<exists>cr\<in>set (allRules cfg). c (anchored (Pattern cr)) = Some (re (pattern r))))) \<and>
   (makeRule c pat = Inr r \<longrightarrow>
      c (CHR 0x5C # CHR ''A'' # pat) = Some (re (pattern r)) \<and>
      MatchTimeout (pattern r) = 250 * 1000000) \<and>
   (cr \<in> set (allRules cfg) \<and> c (anchored (Pattern cr)) = None \<longrightarrow>
      (\<exists>pre x post e. allRules cfg = pre @ x # post \<and> (\<forall>y\<in>set pre. builds c t y) \<and>
          cr \<notin> set pre \<and> buildRule c t x = Inl e \<and>
          Build fuel c t cfg = Some (Panicked e))) \<and>
   (allRules cfg = pre @ cr # post \<and> (\<forall>x\<in>set pre. builds c t x) \<and> checkRule cr = None \<and>
      c (anchored (Pattern cr)) = None \<longrightarrow>
      Build fuel c t cfg = Some (Panicked (InvalidPattern (anchored (Pattern cr))))) \<and>
   (buildRule c t x = Inl e \<longrightarrow>
      checkRule x = Some e \<or>
      checkRule x = None \<and> c (anchored (Pattern x)) = None \<and>
        e = InvalidPattern (anchored (Pattern x)) \<or>
      checkRule x = None \<and> (\<exists>ty. e = InvalidTokenType ty))"
proof (intro conjI impI ballI)
  fix x
  assume b: "Build fuel c t cfg = Some (Returned lx err)" and x: "x \<in> set (allRules cfg)"
  from Build_Returned_D[OF b] obtain T0 where "addStates c t newRules (States cfg) = Inr T0"
    by blast
  from addStates_Inr[OF this] have "\<forall>cr\<in>set (allRules cfg). builds c t cr"
    using ruleSequence_Inr_iff[of c t "allRules cfg"] by (simp add: allRules_def)
  with x obtain r' where "buildRule c t x = Inr r'"
    using builds_D by blast
  from buildRule_pattern[OF this] show "c (anchored (Pattern x)) \<noteq> None" by simp
next
  fix x
  assume b: "Build fuel c t cfg = Some (Returned lx err)" and x: "x \<in> rulesIn (lexer_rules lx)"
  from Build_provenance[OF b x] obtain cr' where cr': "cr' \<in> set (allRules cfg)"
    "buildRule c t cr' = Inr x" by blast
  from buildRule_pattern[OF cr'(2)] show "MatchTimeout (pattern x) = 250 * Millisecond" by simp
  from buildRule_pattern[OF cr'(2)] cr'(1)
  show "\<exists>cr\<in>set (allRules cfg). c (anchored (Pattern cr)) = Some (re (pattern x))" by blast
next
  assume "makeRule c pat = Inr r"
  then show "c (CHR 0x5C # CHR ''A'' # pat) = Some (re (pattern r))"
    by (auto simp: makeRule_def anchored_def split: option.splits)
next
  assume "makeRule c pat = Inr r"
  then show "MatchTimeout (pattern r) = 250 * 1000000"
    by (auto simp: makeRule_def Millisecond_def split: option.splits)
next
  assume a: "cr \<in> set (allRules cfg) \<and> c (anchored (Pattern cr)) = None"
  have nb: "\<not> builds c t cr"
  proof
    assume "builds c t cr"
    then obtain r' where "buildRule c t cr = Inr r'"
      using builds_D by blast
    from buildRule_pattern[OF this] a show False by simp
  qed
  with a have "\<not> (\<forall>x\<in>set (allRules cfg). builds c t x)" by blast
  then have "\<not> (\<exists>rs. ruleSequence c t (allRules cfg) = Inr rs)"
    using ruleSequence_Inr_iff[of c t "allRules cfg"] by blast
  then obtain e' where e': "ruleSequence c t (allRules cfg) = Inl e'"
    by (cases "ruleSequence c t (allRules cfg)") auto
  from ruleSequence_first_failure[OF e'] obtain pre' x' post' where
    h: "allRules cfg = pre' @ x' # post'" "\<forall>y\<in>set pre'. builds c t y" "buildRule c t x' = Inl e'"
    by blast
  from h(2) nb have "cr \<notin> set pre'" by blast
  with h Build_phase1_failure[OF e', of fuel]
  show "\<exists>pre x post e. allRules cfg = pre @ x # post \<and> (\<forall>y\<in>set pre. builds c t y) \<and>
          cr \<notin> set pre \<and> buildRule c t x = Inl e \<and>
          Build fuel c t cfg = Some (Panicked e)" by blast
next
  assume a: "allRules cfg = pre @ cr # post \<and> (\<forall>x\<in>set pre. builds c t x) \<and> checkRule cr = None \<and>
      c (anchored (Pattern cr)) = None"
  then have "buildRule c t cr = Inl (InvalidPattern (anchored (Pattern cr)))"
    by (simp add: buildRule_def makeRule_def)
  with a have "ruleSequence c t (pre @ cr # post) = Inl (InvalidPattern (anchored (Pattern cr)))"
    by (simp add: ruleSequence_fails_at)
  with a show "Build fuel c t cfg = Some (Panicked (InvalidPattern (anchored (Pattern cr))))"
    by (simp add: Build_phase1_failure)
next
  assume "buildRule c t x = Inl e"
  from buildRule_error[OF this]
  show "checkRule x = Some e \<or>
      checkRule x = None \<and> c (anchored (Pattern x)) = None \<and>
        e = InvalidPattern (anchored (Pattern x)) \<or>
      checkRule x = None \<and> (\<exists>ty. e = InvalidTokenType ty)" .
qed

theorem Build_compiles_anchored_patterns_witness:
  "(\<exists>lx. Build 0 Some (\<lambda>ty. None) cfgAB = Some (Returned lx None) \<and>
         list_all (\<lambda>r. MatchTimeout (pattern r) = 250000000) (concat (map (rules \<circ> snd) (lexer_rules lx)))) \<and>
   (\<exists>r. makeRule Some ''a|b'' = Inr r \<and> re (pattern r) = CHR 0x5C # CHR ''A'' # ''a|b'' \<and>
        MatchTimeout (pattern r) = 250000000) \<and>
   Build 0 compileStrict (\<lambda>ty. None) cfgBadPattern = Some (Panicked (InvalidPattern (anchored ''(''))) \<and>
   (\<exists>e. Build 0 compileStrict (\<lambda>ty. None) cfgBadBoth = Some (Panicked e)) \<and>
   checkRule ((plainRule ''('')\<lparr>Push := Some ''root'', Pop := Some 1\<rparr>) = Some PushAndPop"
proof -
  let ?t = "\<lambda>ty :: string. None :: TokenType option"
  let ?both = "(plainRule ''('')\<lparr>Push := Some ''root'', Pop := Some 1\<rparr>"
  obtain lx :: "string Lexer" where lx: "Build 0 Some ?t cfgAB = Some (Returned lx None)"
    by (simp add: cfgAB_def plainRule_def build_defs combinedStateName_def)
  obtain r :: "string rule" where r: "makeRule Some ''a|b'' = Inr r"
    by (simp add: makeRule_def)
  have pre: "allRules cfgBadPattern = [plainRule ''a''] @ plainRule ''('' # [] \<and>
      (\<forall>x\<in>set [plainRule ''a'']. builds compileStrict ?t x) \<and> checkRule (plainRule ''('') = None \<and>
      compileStrict (anchored (Pattern (plainRule ''(''))) = None"
    by (simp add: allRules_def cfgBadPattern_def builds_def plainRule_def buildRule_def
        checkRule_def makeRule_def setRuleFieldsFrom_def updatePushForCombinedState_def
        compileStrict_def anchored_def)
  have both: "?both \<in> set (allRules cfgBadBoth) \<and> compileStrict (anchored (Pattern ?both)) = None"
    by (simp add: allRules_def cfgBadBoth_def plainRule_def compileStrict_def)
  have berr: "buildRule compileStrict ?t ?both = Inl PushAndPop"
    by (simp add: buildRule_def checkRule_def plainRule_def)
  from Build_compiles_anchored_patterns[where fuel = 0 and t = ?t and c = Some and cfg = cfgAB
      and lx = lx and err = None, THEN conjunct1] lx
  have 1: "\<forall>r\<in>rulesIn (lexer_rules lx). MatchTimeout (pattern r) = 250 * Millisecond" by blast
  then have 1: "list_all (\<lambda>r. MatchTimeout (pattern r) = 250000000) (concat (map (rules \<circ> snd) (lexer_rules lx)))"
    by (fastforce simp: rulesIn_def list_all_iff Millisecond_def)
  from Build_compiles_anchored_patterns[where c = Some and pat = "''a|b''" and r = r, THEN conjunct2, THEN conjunct1] r
  have 2: "re (pattern r) = CHR 0x5C # CHR ''A'' # ''a|b'' \<and> MatchTimeout (pattern r) = 250000000"
    by simp
  from Build_compiles_anchored_patterns[where fuel = 0 and t = ?t and c = compileStrict
      and cfg = cfgBadPattern and cr = "plainRule ''(''" and pre = "[plainRule ''a'']"
      and post = "[]", THEN conjunct2, THEN conjunct2, THEN conjunct2, THEN conjunct1] pre
  have 3: "Build 0 compileStrict ?t cfgBadPattern = Some (Panicked (InvalidPattern (anchored ''('')))"
    by (simp add: plainRule_def)
  from Build_compiles_anchored_patterns[where fuel = 0 and t = ?t and c = compileStrict and cfg = cfgBadBoth
      and cr = ?both, THEN conjunct2, THEN conjunct2, THEN conjunct1] both
  have 4: "\<exists>e. Build 0 compileStrict ?t cfgBadBoth = Some (Panicked e)" by blast
  from Build_compiles_anchored_patterns[where t = ?t and c = compileStrict and x = ?both and e = PushAndPop,
      THEN conjunct2, THEN conjunct2, THEN conjunct2, THEN conjunct2] berr
  have 5: "checkRule ?both = Some PushAndPop" by simp
  from lx 1 r 2 3 4 5 show ?thesis by blast
qed

section \<open>Dangling state references\<close>

text \<open>
  C2, as claimed: whenever a push or include target names an undefined state, Build fails
  with an error that lists every such name.  \<open>root\<close> of \<open>cfgTwoIncludes\<close> includes the
  undefined states \<open>x\<close> and \<open>y\<close>: the include resolution stops at the first of them, and
  its error names \<open>x\<close> only.
\<close>

theorem Build_dangling_counterexample:
  "Build 0 (Some :: string \<Rightarrow> string option) (\<lambda>ty. None) cfgTwoIncludes =
     Some (Panicked (NoSuchInclude ''x'')) \<and>
   isDanglingStateReference (NoSuchInclude ''x'') \<and>
   ''y'' \<notin> set (namesListed (NoSuchInclude ''x''))"
  by (simp add: cfgTwoIncludes_def includeRule_def plainRule_def build_defs)

text \<open>
  C2, amended: for a configuration with a root state, \<open>validate\<close> returns an error that
  lists, in declaration order, every non-empty push target naming no declared state, and
  no error when there is none; include targets are not looked at there.  When a rule of
  the table that \<open>build\<close> assembled includes a state the table lacks, Build returns no
  table.  Whenever Build stops after \<open>build\<close> has assembled a table, its error names
  exactly one include target that the table lacks, not every one; and Build does stop so,
  for every depth bound from some bound on, when moreover the includes of the table are
  well-founded.
\<close>

theorem validate_lists_undefined_push_targets:
  "((\<exists>s\<in>set (States cfg). Name s = ''root'') \<longrightarrow>
      validate cfg =
        (if undefinedPushTargets cfg = [] then None
         else Some (MissingStates (undefinedPushTargets cfg)))) \<and>
   (build c t cfg = Inr T \<and> danglingInclude T \<longrightarrow>
      (\<forall>lx err. Build fuel c t cfg \<noteq> Some (Returned lx err))) \<and>
   (build c t cfg = Inr T \<and> Build fuel c t cfg = Some (Panicked e) \<longrightarrow>
      (\<exists>r\<in>rulesIn T. rinclude r \<noteq> '''' \<and> Get T (rinclude r) = None \<and>
          e = NoSuchInclude (rinclude r) \<and> namesListed e = [rinclude r])) \<and>
   (build c t cfg = Inr T \<and> danglingInclude T \<and> wellRanked T rank \<longrightarrow>
      (\<exists>k r. r \<in> rulesIn T \<and> rinclude r \<noteq> '''' \<and> Get T (rinclude r) = None \<and>
          (\<forall>k'. k \<le> k' \<longrightarrow> Build k' c t cfg = Some (Panicked (NoSuchInclude (rinclude r))))))"
proof (intro conjI impI allI)
  assume "\<exists>s\<in>set (States cfg). Name s = ''root''"
  then show "validate cfg =
        (if undefinedPushTargets cfg = [] then None
         else Some (MissingStates (undefinedPushTargets cfg)))"
    by (simp add: validate_eq makeMissingError_def)
next
  fix lx err
  assume "build c t cfg = Inr T \<and> danglingInclude T"
  with Build_dangling_include_missing[of c t cfg T fuel]
  show "Build fuel c t cfg \<noteq> Some (Returned lx err)" by auto
next
  assume a: "build c t cfg = Inr T \<and> Build fuel c t cfg = Some (Panicked e)"
  with Build_error_rule[of c t cfg T fuel e]
  show "\<exists>r\<in>rulesIn T. rinclude r \<noteq> '''' \<and> Get T (rinclude r) = None \<and>
          e = NoSuchInclude (rinclude r) \<and> namesListed e = [rinclude r]" by auto
next
  assume a: "build c t cfg = Inr T \<and> danglingInclude T \<and> wellRanked T rank"
  let ?k = "Suc (sum_list (map (rank \<circ> fst) T))"
  from a Build_ends_ranked[of c t cfg T rank] obtain out where out: "Build ?k c t cfg = Some out"
    by auto
  from a Build_dangling_include_missing[of c t cfg T ?k] out
  obtain s where "out = Panicked (NoSuchInclude s)" by auto
  with a out Build_error_rule[of c t cfg T ?k "NoSuchInclude s"]
  obtain r where r: "r \<in> rulesIn T" "rinclude r \<noteq> ''''" "Get T (rinclude r) = None"
    "Build ?k c t cfg = Some (Panicked (NoSuchInclude (rinclude r)))" by auto
  from Build_mono[OF r(4)]
  have "\<forall>k'. ?k \<le> k' \<longrightarrow> Build k' c t cfg = Some (Panicked (NoSuchInclude (rinclude r)))"
    by blast
  with r(1,2,3)
  show "\<exists>k r. r \<in> rulesIn T \<and> rinclude r \<noteq> '''' \<and> Get T (rinclude r) = None \<and>
          (\<forall>k'. k \<le> k' \<longrightarrow> Build k' c t cfg = Some (Panicked (NoSuchInclude (rinclude r))))"
    by blast
qed

theorem validate_lists_undefined_push_targets_witness:
  "validate cfgDanglingPush = Some (MissingStates [''nowhere'', ''void'']) \<and>
   (\<exists>e. Build 0 (Some :: string \<Rightarrow> string option) (\<lambda>ty. None) cfgTwoIncludes = Some (Panicked e) \<and>
        length (namesListed e) = 1) \<and>
   Build 1 (Some :: string \<Rightarrow> string option) (\<lambda>ty. None) cfgDanglingChain =
     Some (Panicked (NoSuchInclude ''x'')) \<and>
   (\<exists>k s. \<forall>k'. k \<le> k' \<longrightarrow>
      Build k' (Some :: string \<Rightarrow> string option) (\<lambda>ty. None) cfgDanglingChain =
        Some (Panicked (NoSuchInclude s)))"
proof -
  let ?c = "Some :: string \<Rightarrow> string option"
  let ?t = "\<lambda>ty :: string. None :: TokenType option"
  let ?rank = "\<lambda>n. if n = ''root'' then 1 else (0::nat)"
  have root: "\<exists>s\<in>set (States cfgDanglingPush). Name s = ''root''"
    by (simp add: cfgDanglingPush_def)
  have targets: "undefinedPushTargets cfgDanglingPush = [''nowhere'', ''void'']"
    by (simp add: undefinedPushTargets_def cfgDanglingPush_def allRules_def plainRule_def
        List.map_filter_simps)
  from validate_lists_undefined_push_targets[where cfg = cfgDanglingPush, THEN conjunct1] root targets
  have 1: "validate cfgDanglingPush = Some (MissingStates [''nowhere'', ''void''])" by simp
  obtain T where T: "build ?c ?t cfgTwoIncludes = Inr T"
    by (simp add: cfgTwoIncludes_def includeRule_def plainRule_def build_defs)
  obtain e where e: "Build 0 ?c ?t cfgTwoIncludes = Some (Panicked e)"
    by (simp add: cfgTwoIncludes_def includeRule_def plainRule_def build_defs)
  from validate_lists_undefined_push_targets[where c = ?c and t = ?t and cfg = cfgTwoIncludes and T = T and fuel = 0 and e = e,
      THEN conjunct2, THEN conjunct2, THEN conjunct1] T e
  have "length (namesListed e) = 1" by auto
  with e have 2: "\<exists>e. Build 0 ?c ?t cfgTwoIncludes = Some (Panicked e) \<and> length (namesListed e) = 1"
    by blast
  obtain T' where T': "build ?c ?t cfgDanglingChain = Inr T'" and d: "danglingInclude T'"
    and wr: "wellRanked T' ?rank"
    by (simp add: cfgDanglingChain_def includeRule_def plainRule_def build_defs
        danglingInclude_def rulesIn_def wellRanked_def)
  have 3: "Build 1 ?c ?t cfgDanglingChain = Some (Panicked (NoSuchInclude ''x''))"
    by (simp add: cfgDanglingChain_def includeRule_def plainRule_def build_defs)
  from validate_lists_undefined_push_targets[where c = ?c and t = ?t and cfg = cfgDanglingChain and T = T' and rank = ?rank,
      THEN conjunct2, THEN conjunct2, THEN conjunct2] T' d wr
  have 4: "\<exists>k s. \<forall>k'. k \<le> k' \<longrightarrow> Build k' ?c ?t cfgDanglingChain = Some (Panicked (NoSuchInclude s))"
    by blast
  from 1 2 3 4 show ?thesis by (intro conjI)
qed

section \<open>Include resolution\<close>



text \<open>
  C5, as claimed: include resolution ends for every configuration, and a state that
  includes itself makes Build fail at build time.  For \<open>cfgSelfInclude\<close> the resolution
  calls itself on the rules of \<open>root\<close> at every depth: no bound lets Build end.
\<close>

theorem self_include_never_ends:
  "\<not> buildEnds (Some :: string \<Rightarrow> string option) (\<lambda>ty. None) cfgSelfInclude"
  by (simp add: buildEnds_def cfgSelfInclude_diverges)

text \<open>
  C5, amended: include resolution ends whenever the includes of the assembled table are
  well-founded (every include goes to a state of lower rank); Build then comes to an
  end, with the same outcome for every larger depth bound, and it fails at build time
  when some include names a state the table lacks.  A failure of the first pass ends
  Build at once.  Nothing is promised for includes that form a cycle.
\<close>

theorem ranked_includes_resolve:
  "(build c t cfg = Inl e \<longrightarrow> Build fuel c t cfg = Some (Panicked e)) \<and>
   (build c t cfg = Inr T \<and> wellRanked T rank \<longrightarrow> buildEnds c t cfg) \<and>
   (build c t cfg = Inr T \<and> wellRanked T rank \<and> danglingInclude T \<longrightarrow>
      (\<exists>k s. Build k c t cfg = Some (Panicked (NoSuchInclude s)))) \<and>
   (Build fuel c t cfg = Some out \<and> fuel \<le> fuel' \<longrightarrow> Build fuel' c t cfg = Some out)"
proof (intro conjI impI)
  assume "build c t cfg = Inl e"
  then show "Build fuel c t cfg = Some (Panicked e)" by (simp add: Build_def Let_def)
next
  assume "build c t cfg = Inr T \<and> wellRanked T rank"
  then show "buildEnds c t cfg"
    using Build_ends_ranked[of c t cfg T rank] by (auto simp: buildEnds_def)
next
  assume a: "build c t cfg = Inr T \<and> wellRanked T rank \<and> danglingInclude T"
  let ?k = "Suc (sum_list (map (rank \<circ> fst) T))"
  from a have "Build ?k c t cfg \<noteq> None" using Build_ends_ranked[of c t cfg T rank] by simp
  with a Build_dangling_include[of c t cfg T ?k]
  show "\<exists>k s. Build k c t cfg = Some (Panicked (NoSuchInclude s))" by blast
next
  assume "Build fuel c t cfg = Some out \<and> fuel \<le> fuel'"
  then show "Build fuel' c t cfg = Some out" using Build_mono by blast
qed

theorem ranked_includes_resolve_witness:
  "buildEnds (Some :: string \<Rightarrow> string option) (\<lambda>ty. None) cfgABC \<and>
   (\<exists>k s. Build k (Some :: string \<Rightarrow> string option) (\<lambda>ty. None) cfgTwoIncludes =
            Some (Panicked (NoSuchInclude s))) \<and>
   Build 7 (Some :: string \<Rightarrow> string option) (\<lambda>ty. None) cfgPushPop = Some (Panicked PushAndPop) \<and>
   Build 5 (Some :: string \<Rightarrow> string option) (\<lambda>ty. None) cfgTwoIncludes =
     Some (Panicked (NoSuchInclude ''x''))"
proof -
  let ?c = "Some :: string \<Rightarrow> string option"
  let ?t = "\<lambda>ty :: string. None :: TokenType option"
  let ?rank = "\<lambda>n. if n = ''root'' then 2 else if n = ''b'' then 1 else (0::nat)"
  obtain T where T: "build ?c ?t cfgABC = Inr T" and wr: "wellRanked T ?rank"
    by (simp add: cfgABC_def includeRule_def plainRule_def build_defs wellRanked_def)
  obtain T2 where T2: "build ?c ?t cfgTwoIncludes = Inr T2" and wr2: "wellRanked T2 (\<lambda>n. 0)"
    and d2: "danglingInclude T2"
    by (simp add: cfgTwoIncludes_def includeRule_def plainRule_def build_defs wellRanked_def
        danglingInclude_def rulesIn_def)
  have p: "build ?c ?t cfgPushPop = Inl PushAndPop"
    by (simp add: cfgPushPop_def plainRule_def build_defs)
  have z: "Build 0 ?c ?t cfgTwoIncludes = Some (Panicked (NoSuchInclude ''x''))"
    by (simp add: cfgTwoIncludes_def includeRule_def plainRule_def build_defs)
  from ranked_includes_resolve[where c = ?c and t = ?t and cfg = cfgABC and T = T and rank = ?rank] T wr
  have 1: "buildEnds ?c ?t cfgABC" by blast
  from ranked_includes_resolve[where c = ?c and t = ?t and cfg = cfgTwoIncludes and T = T2
      and rank = "\<lambda>n. 0"] T2 wr2 d2
  have 2: "\<exists>k s. Build k ?c ?t cfgTwoIncludes = Some (Panicked (NoSuchInclude s))" by blast
  from ranked_includes_resolve[where c = ?c and t = ?t and cfg = cfgPushPop and e = PushAndPop
      and fuel = 7] p
  have 3: "Build 7 ?c ?t cfgPushPop = Some (Panicked PushAndPop)" by blast
  from ranked_includes_resolve[where c = ?c and t = ?t and cfg = cfgTwoIncludes and fuel = 0
      and out = "Panicked (NoSuchInclude ''x'')" and fuel' = 5] z
  have 4: "Build 5 ?c ?t cfgTwoIncludes = Some (Panicked (NoSuchInclude ''x''))" by simp
  from 1 2 3 4 show ?thesis by blast
qed

section \<open>Combined states\<close>

text \<open>
  C6, as claimed: every rule declaring the combination \<open>L\<close> gets a state, built once per
  distinct list, whose rules are the resolved rules of the states of \<open>L\<close> in order.  The
  second rule of \<open>root\<close> in \<open>cfgAB\<close> declares \<open>[a, b]\<close>; the state its push target names
  holds the rule of \<open>a__b\<close>, not the rules of \<open>a\<close> and \<open>b\<close>: it was built for the list
  \<open>[a__b]\<close>, which has the same synthesized name.
\<close>

theorem combined_state_counterexample:
  "(case Build 0 (Some :: string \<Rightarrow> string option) (\<lambda>ty. None) cfgAB of
      Some (Returned lx None) \<Rightarrow>
        map pushState (stateRules (lexer_rules lx) ''root'') =
          [combinedStateName [''a__b''], combinedStateName [''a'', ''b'']] \<and>
        map (re \<circ> pattern) (stateRules (lexer_rules lx) (combinedStateName [''a'', ''b''])) =
          [anchored ''3''] \<and>
        map (re \<circ> pattern) (concat (map (stateRules (lexer_rules lx)) [''a'', ''b''])) =
          [anchored ''1'', anchored ''2'']
    | _ \<Rightarrow> False)"
  by (simp add: cfgAB_def plainRule_def build_defs combinedStateName_def stateRules_def)

text \<open>
  C6, amended: the rule built for a rule declaring the combination \<open>L\<close> pushes the state
  named \<open>__combined_\<close> plus the names of \<open>L\<close> joined by \<open>__\<close>, and a table that Build
  returns holds one state under that name.  The state is built once per synthesized
  name: unless a declared state bears the name, it was synthesized for some declared
  list with that name, as the concatenation of the resolved rules of that list's states
  in order.  It is the list \<open>L\<close> itself when no other declared list, and no declared
  state, shares the name.
\<close>

theorem combined_states_synthesized:
  assumes "Build fuel c t cfg = Some (Returned lx err)"
    and "cr \<in> set (allRules cfg)" and "Combined cr = Some cs"
  shows "(\<exists>r. buildRule c t cr = Inr r \<and> pushState r = combinedStateName cs) \<and>
     (\<exists>st. Get (lexer_rules lx) (combinedStateName cs) = Some st \<and>
        (combinedStateName cs \<notin> Name ` set (States cfg) \<longrightarrow>
           (\<exists>cs'. declaredCombination cfg cs' \<and> combinedStateName cs' = combinedStateName cs \<and>
              rules st = concat (map (stateRules (lexer_rules lx)) cs'))) \<and>
        (unambiguous cfg cs \<longrightarrow> rules st = concat (map (stateRules (lexer_rules lx)) cs)))"
proof -
  from Build_Returned_D[OF assms(1)] obtain T0 where
    "addStates c t newRules (States cfg) = Inr T0" by blast
  from addStates_Inr[OF this] have "\<forall>x\<in>set (allRules cfg). builds c t x"
    using ruleSequence_Inr_iff[of c t "allRules cfg"] by (simp add: allRules_def)
  with assms(2) obtain r where r: "buildRule c t cr = Inr r" using builds_D by blast
  from buildRule_combined_push[OF r assms(3)] r
  have 1: "\<exists>r. buildRule c t cr = Inr r \<and> pushState r = combinedStateName cs" by blast
  from Build_combined_state[OF assms] obtain st where
    st: "Get (lexer_rules lx) (combinedStateName cs) = Some st"
    and syn: "combinedStateName cs \<notin> Name ` set (States cfg) \<longrightarrow>
           (\<exists>cs'. declaredCombination cfg cs' \<and> combinedStateName cs' = combinedStateName cs \<and>
              rules st = concat (map (stateRules (lexer_rules lx)) cs'))"
    by blast
  have "rules st = concat (map (stateRules (lexer_rules lx)) cs)" if u: "unambiguous cfg cs"
  proof -
    from u syn obtain cs' where cs': "declaredCombination cfg cs'"
      "combinedStateName cs' = combinedStateName cs"
      "rules st = concat (map (stateRules (lexer_rules lx)) cs')"
      by (auto simp: unambiguous_def)
    from u cs'(1,2) have "cs' = cs" by (auto simp: unambiguous_def)
    with cs'(3) show ?thesis by simp
  qed
  with 1 st syn show ?thesis by blast
qed

theorem combined_states_synthesized_witness:
  "\<exists>lx st. Build 0 (Some :: string \<Rightarrow> string option) (\<lambda>ty. None) cfgCombined =
             Some (Returned lx None) \<and>
     unambiguous cfgCombined [''a'', ''b''] \<and>
     Get (lexer_rules lx) ''__combined_a__b'' = Some st \<and>
     rules st = concat (map (stateRules (lexer_rules lx)) [''a'', ''b'']) \<and>
     map (re \<circ> pattern) (rules st) = [anchored ''1'', anchored ''2''] \<and>
     map pushState (stateRules (lexer_rules lx) ''root'') = [''__combined_a__b'']"
proof -
  let ?c = "Some :: string \<Rightarrow> string option"
  let ?t = "\<lambda>ty :: string. None :: TokenType option"
  let ?cr = "(plainRule ''x'')\<lparr>Combined := Some [''a'', ''b'']\<rparr>"
  obtain lx where lx: "Build 0 ?c ?t cfgCombined = Some (Returned lx None)"
    and pats: "map (re \<circ> pattern) (stateRules (lexer_rules lx) ''__combined_a__b'') =
                 [anchored ''1'', anchored ''2'']"
    and push: "map pushState (stateRules (lexer_rules lx) ''root'') = [''__combined_a__b'']"
    by (simp add: cfgCombined_def plainRule_def build_defs combinedStateName_def stateRules_def)
  have mem: "?cr \<in> set (allRules cfgCombined)" and cs: "Combined ?cr = Some [''a'', ''b'']"
    by (simp_all add: allRules_def cfgCombined_def)
  have nm: "combinedStateName [''a'', ''b''] = ''__combined_a__b''"
    by (simp add: combinedStateName_def)
  have u: "unambiguous cfgCombined [''a'', ''b'']"
    by (auto simp: unambiguous_def declaredCombination_def allRules_def cfgCombined_def
        plainRule_def combinedStateName_def)
  from combined_states_synthesized[OF lx mem cs] u nm obtain st where
    st: "Get (lexer_rules lx) ''__combined_a__b'' = Some st"
    "rules st = concat (map (stateRules (lexer_rules lx)) [''a'', ''b''])"
    by auto
  from st(1) pats have p2: "map (re \<circ> pattern) (rules st) = [anchored ''1'', anchored ''2'']"
    by (simp add: stateRules_def)
  show ?thesis
    by (rule exI[where x = lx], rule exI[where x = st]) (intro conjI lx u st p2 push)
qed

section \<open>The tokenizer's fallback\<close>




end
